theory Spec2Isabelle
  imports Main
begin

section \<open>Go strings and UTF-8\<close>

text \<open>
  A Go \<^verbatim>\<open>string\<close> (and a \<^verbatim>\<open>[]byte\<close>) is a sequence of bytes, and \<^verbatim>\<open>len\<close> counts
  bytes. The model uses \<^typ>\<open>string\<close>, a list of 8-bit characters. A rune (a Unicode
  code point) is a natural number. The package \<^verbatim>\<open>snap\<close> reaches the UTF-8 decoder of
  the standard library through \<^verbatim>\<open>regexp\<close>, \<^verbatim>\<open>bytes.TrimSpace\<close> and the conversion
  \<^verbatim>\<open>[]rune(s)\<close>, so the decoder is part of the model.
\<close>

definition RuneError :: nat where
  "RuneError = 0xFFFD"

definition byte :: "char \<Rightarrow> nat" where
  "byte c = of_char c"

text \<open>
  The table \<^verbatim>\<open>first\<close> of \<^verbatim>\<open>unicode/utf8\<close> for the lead bytes of multi-byte
  sequences: the length of the sequence and the accepted range of its second byte.
  \<^const>\<open>None\<close> stands for the entries \<^verbatim>\<open>xx\<close> (invalid lead bytes 0x80-0xC1 and
  0xF5-0xFF); ASCII is handled before the table is read.
\<close>

definition acceptRange :: "nat \<Rightarrow> (nat \<times> nat \<times> nat) option" where
  "acceptRange s0 =
    (if 0xC2 \<le> s0 \<and> s0 \<le> 0xDF then Some (2, 0x80, 0xBF)
     else if s0 = 0xE0 then Some (3, 0xA0, 0xBF)
     else if 0xE1 \<le> s0 \<and> s0 \<le> 0xEC then Some (3, 0x80, 0xBF)
     else if s0 = 0xED then Some (3, 0x80, 0x9F)
     else if 0xEE \<le> s0 \<and> s0 \<le> 0xEF then Some (3, 0x80, 0xBF)
     else if s0 = 0xF0 then Some (4, 0x90, 0xBF)
     else if 0xF1 \<le> s0 \<and> s0 \<le> 0xF3 then Some (4, 0x80, 0xBF)
     else if s0 = 0xF4 then Some (4, 0x80, 0x8F)
     else None)"

text \<open>
  \<^verbatim>\<open>utf8.DecodeRuneInString\<close>: the first rune of \<open>s\<close> and its width in bytes. An
  empty input gives \<open>(RuneError, 0)\<close>, an invalid or truncated encoding gives
  \<open>(RuneError, 1)\<close>. The masks \<^verbatim>\<open>s0 & 0x1F\<close>, \<^verbatim>\<open>& 0x0F\<close>, \<^verbatim>\<open>& 0x07\<close> and
  \<^verbatim>\<open>& 0x3F\<close> are written as remainders, the shifts as products.
\<close>

definition DecodeRune :: "string \<Rightarrow> nat \<times> nat" where
  "DecodeRune s =
    (case s of
       [] \<Rightarrow> (RuneError, 0)
     | c0 # _ \<Rightarrow>
        (let s0 = byte c0 in
         if s0 < 0x80 then (s0, 1)
         else (case acceptRange s0 of
                 None \<Rightarrow> (RuneError, 1)
               | Some (sz, lo, hi) \<Rightarrow>
                  if length s < sz then (RuneError, 1)
                  else (let s1 = byte (s ! 1) in
                    if s1 < lo \<or> hi < s1 then (RuneError, 1)
                    else if sz \<le> 2 then ((s0 mod 32) * 64 + s1 mod 64, 2)
                    else (let s2 = byte (s ! 2) in
                      if s2 < 0x80 \<or> 0xBF < s2 then (RuneError, 1)
                      else if sz \<le> 3
                        then ((s0 mod 16) * 4096 + (s1 mod 64) * 64 + s2 mod 64, 3)
                      else (let s3 = byte (s ! 3) in
                        if s3 < 0x80 \<or> 0xBF < s3 then (RuneError, 1)
                        else ((s0 mod 8) * 262144 + (s1 mod 64) * 4096
                              + (s2 mod 64) * 64 + s3 mod 64, 4)))))))"

lemma DecodeRune_width_pos: "s \<noteq> [] \<Longrightarrow> 0 < snd (DecodeRune s)"
  by (auto simp: DecodeRune_def Let_def split: list.splits option.splits)

text \<open>
  The conversion \<^verbatim>\<open>[]rune(s)\<close>: the runes of \<open>s\<close> from left to right, one
  \<open>RuneError\<close> for every byte that starts no valid encoding.
\<close>

function runes :: "string \<Rightarrow> nat list" where
  "runes s =
    (if s = [] then []
     else (case DecodeRune s of (r, width) \<Rightarrow> r # runes (drop width s)))"
  by pat_completeness auto
termination
proof (relation "measure length")
  show "wf (measure length)" by simp
next
  fix s :: string and r width :: nat
  assume nonempty: "s \<noteq> []" and "(r, width) = DecodeRune s"
  then have "snd (DecodeRune s) = width"
    by (cases "DecodeRune s") simp
  with DecodeRune_width_pos [OF nonempty] have "0 < width"
    by simp
  with nonempty show "(drop width s, s) \<in> measure length"
    by simp
qed

declare runes.simps [simp del]

section \<open>The filename sanitizer\<close>

text \<open>
  \<^verbatim>\<open>nonSafeFilenamePattern = regexp.MustCompile(`[^0-9a-zA-Z-._]`)\<close>. The class holds
  the digits, the ASCII letters and the three characters \<^verbatim>\<open>-\<close>, \<^verbatim>\<open>.\<close> and \<^verbatim>\<open>_\<close>
  (a \<^verbatim>\<open>-\<close> that follows a range is a literal). \<open>safeRune r\<close> says that the rune
  \<open>r\<close> is in the class, so the pattern matches exactly the runes that are not safe.
\<close>

definition safeRune :: "nat \<Rightarrow> bool" where
  "safeRune r \<longleftrightarrow>
     (0x30 \<le> r \<and> r \<le> 0x39) \<or> (0x61 \<le> r \<and> r \<le> 0x7A) \<or> (0x41 \<le> r \<and> r \<le> 0x5A)
     \<or> r = 0x2D \<or> r = 0x2E \<or> r = 0x5F"

text \<open>
  \<^verbatim>\<open>ToSafeFilename(s) = nonSafeFilenamePattern.ReplaceAllString(s, "_")\<close>. The regexp
  engine reads its input rune by rune with the decoder above (an invalid byte is the
  rune \<open>RuneError\<close> of width 1, which the negated class matches). The pattern matches
  one rune, so the replacement walks the string: a rune outside the class, whatever its
  width, is replaced by one underscore; the bytes of any other rune are copied.
\<close>

function ToSafeFilename :: "string \<Rightarrow> string" where
  "ToSafeFilename s =
    (if s = [] then []
     else (case DecodeRune s of
             (r, width) \<Rightarrow>
               (if safeRune r then take width s else ''_'')
               @ ToSafeFilename (drop width s)))"
  by pat_completeness auto
termination
proof (relation "measure length")
  show "wf (measure length)" by simp
next
  fix s :: string and r width :: nat
  assume nonempty: "s \<noteq> []" and "(r, width) = DecodeRune s"
  then have "snd (DecodeRune s) = width"
    by (cases "DecodeRune s") simp
  with DecodeRune_width_pos [OF nonempty] have "0 < width"
    by simp
  with nonempty show "(drop width s, s) \<in> measure length"
    by simp
qed

declare ToSafeFilename.simps [simp del]

text \<open>
  The spec's words for the sanitizer: every character outside the set becomes one
  underscore. \<open>isASCII s\<close> says that every byte of \<open>s\<close> is below 0x80.
\<close>

definition sanitizeRune :: "nat \<Rightarrow> char" where
  "sanitizeRune r = (if safeRune r then char_of r else CHR ''_'')"

definition isASCII :: "string \<Rightarrow> bool" where
  "isASCII s = list_all (\<lambda>c. byte c < 0x80) s"

section \<open>Formatting and splitting\<close>

text \<open>
  \<^verbatim>\<open>fmt.Sprintf("%s_%03d", seriesID, i)\<close>. The verb \<^verbatim>\<open>%s\<close> copies the bytes of the string.
  The verb \<^verbatim>\<open>%03d\<close> writes an \<^verbatim>\<open>int\<close> in decimal, padded with zeros to a width of
  at least three; the sign of a negative number counts for the width and comes before
  the zeros. A number of more than three digits is written in full.
\<close>

fun decimal :: "nat \<Rightarrow> string" where
  "decimal n =
    (if n < 10 then [''0123456789'' ! n]
     else decimal (n div 10) @ [''0123456789'' ! (n mod 10)])"

declare decimal.simps [simp del]

definition zeroPad :: "nat \<Rightarrow> string \<Rightarrow> string" where
  "zeroPad w ds = replicate (w - length ds) CHR ''0'' @ ds"

definition Sprintf_03d :: "int \<Rightarrow> string" where
  "Sprintf_03d i =
    (if i < 0 then ''-'' @ zeroPad 2 (decimal (nat (- i)))
     else zeroPad 3 (decimal (nat i)))"

definition Sprintf_s_03d :: "string \<Rightarrow> int \<Rightarrow> string" where
  "Sprintf_s_03d seriesID i = seriesID @ ''_'' @ Sprintf_03d i"

text \<open>
  \<^verbatim>\<open>bytes.Split\<close> and \<^verbatim>\<open>strings.Split\<close> for a separator of one byte, the only kind
  the package uses: the pieces between the separators, \<open>n + 1\<close> pieces for \<open>n\<close>
  separators, so an input without the separator (the empty input too) gives one piece.
  As in \<^verbatim>\<open>genSplit\<close>, the piece before the first separator is cut off and the rest
  is split in turn.
\<close>

function Split :: "string \<Rightarrow> char \<Rightarrow> string list" where
  "Split s sep =
    (if sep \<in> set s
     then takeWhile (\<lambda>c. c \<noteq> sep) s # Split (tl (dropWhile (\<lambda>c. c \<noteq> sep) s)) sep
     else [s])"
  by pat_completeness auto
termination
proof (relation "measure (\<lambda>(s, sep). length s)")
  show "wf (measure (\<lambda>(s, sep). length s))" by simp
next
  fix s :: string and sep :: char
  assume "sep \<in> set s"
  then have "dropWhile (\<lambda>c. c \<noteq> sep) s \<noteq> []"
    by simp
  then have "length (tl (dropWhile (\<lambda>c. c \<noteq> sep) s)) < length (dropWhile (\<lambda>c. c \<noteq> sep) s)"
    by simp
  also have "\<dots> \<le> length s"
    by (rule length_dropWhile_le)
  finally show "((tl (dropWhile (\<lambda>c. c \<noteq> sep) s), sep), (s, sep)) \<in> measure (\<lambda>(s, sep). length s)"
    by simp
qed

declare Split.simps [simp del]

text \<open>\<^verbatim>\<open>strings.HasPrefix\<close>.\<close>

definition HasPrefix :: "string \<Rightarrow> string \<Rightarrow> bool" where
  "HasPrefix s pre \<longleftrightarrow> length pre \<le> length s \<and> take (length pre) s = pre"

text \<open>\<^verbatim>\<open>strings.Join\<close> with a separator of one byte, to state what \<open>Split\<close> keeps.\<close>

fun joinWith :: "char \<Rightarrow> string list \<Rightarrow> string" where
  "joinWith sep [] = []"
| "joinWith sep [x] = x"
| "joinWith sep (x # y # ys) = x @ sep # joinWith sep (y # ys)"

section \<open>Trimming white space\<close>

text \<open>
  \<^verbatim>\<open>unicode.IsSpace\<close>: in Latin-1 the characters tab, line feed, vertical tab, form feed,
  carriage return, space, U+0085 and U+00A0; above Latin-1 the table \<^verbatim>\<open>White_Space\<close>.
\<close>

definition IsSpace :: "nat \<Rightarrow> bool" where
  "IsSpace r \<longleftrightarrow>
     (if r \<le> 0xFF
      then (0x09 \<le> r \<and> r \<le> 0x0D) \<or> r = 0x20 \<or> r = 0x85 \<or> r = 0xA0
      else r = 0x1680 \<or> (0x2000 \<le> r \<and> r \<le> 0x200A) \<or> r = 0x2028 \<or> r = 0x2029
           \<or> r = 0x202F \<or> r = 0x205F \<or> r = 0x3000)"

text \<open>\<^verbatim>\<open>utf8.RuneStart\<close>: the byte is not a continuation byte.\<close>

definition RuneStart :: "nat \<Rightarrow> bool" where
  "RuneStart b \<longleftrightarrow> b < 0x80 \<or> 0xBF < b"

text \<open>
  The loop of \<^verbatim>\<open>utf8.DecodeLastRune\<close> that walks back from \<open>start\<close> to the limit
  \<open>lim\<close>, looking for a byte that can start a rune; it ends one below the limit
  when there is none.
\<close>

function lastStart :: "string \<Rightarrow> int \<Rightarrow> int \<Rightarrow> int" where
  "lastStart p start lim =
    (if lim \<le> start
     then (if RuneStart (byte (p ! nat start)) then start else lastStart p (start - 1) lim)
     else start)"
  by pat_completeness auto
termination
  by (relation "measure (\<lambda>(p, start, lim). nat (start - lim + 1))") auto

declare lastStart.simps [simp del]

text \<open>
  \<^verbatim>\<open>utf8.DecodeLastRune\<close>: the last rune of \<open>p\<close> and its width; \<open>(RuneError, 0)\<close> for
  the empty input and \<open>(RuneError, 1)\<close> when the last byte ends no valid encoding.
\<close>

definition DecodeLastRune :: "string \<Rightarrow> nat \<times> nat" where
  "DecodeLastRune p =
    (let end = length p in
     if end = 0 then (RuneError, 0)
     else (let r = byte (p ! (end - 1)) in
       if r < 0x80 then (r, 1)
       else (let lim = max (int end - 4) 0;
                 start = max (lastStart p (int end - 2) lim) 0;
                 (r, width) = DecodeRune (drop (nat start) p)
             in if nat start + width \<noteq> end then (RuneError, 1) else (r, width))))"

lemma lastStart_le: "lastStart p start lim \<le> start"
proof (induction p start lim rule: lastStart.induct)
  case (1 p start lim)
  then show ?case
    by (subst lastStart.simps) (auto simp: le_diff_eq)
qed

lemma DecodeLastRune_width_pos:
  assumes "p \<noteq> []"
  shows "0 < snd (DecodeLastRune p)"
proof -
  define start where "start = max (lastStart p (int (length p) - 2) (max (int (length p) - 4) 0)) 0"
  have "lastStart p (int (length p) - 2) (max (int (length p) - 4) 0) \<le> int (length p) - 2"
    by (rule lastStart_le)
  then have "start \<le> max (int (length p) - 2) 0"
    unfolding start_def by linarith
  moreover have "0 < length p"
    using assms by simp
  ultimately have "nat start < length p"
    by linarith
  then show ?thesis
    using assms unfolding DecodeLastRune_def Let_def start_def [symmetric]
    by (auto split: prod.splits)
qed

text \<open>
  \<^verbatim>\<open>bytes.TrimSpace(s)\<close> slices off all leading and trailing white space, as defined
  by Unicode: \<^verbatim>\<open>TrimLeftFunc\<close> reads runes from the front while they are white space,
  \<^verbatim>\<open>TrimRightFunc\<close> reads them from the back. (The ASCII fast path of \<^verbatim>\<open>TrimSpace\<close>
  computes the same slice.)
\<close>

function TrimLeftSpace :: "string \<Rightarrow> string" where
  "TrimLeftSpace s =
    (if s = [] then []
     else (case DecodeRune s of
             (r, wid) \<Rightarrow> if IsSpace r then TrimLeftSpace (drop wid s) else s))"
  by pat_completeness auto
termination
proof (relation "measure length")
  show "wf (measure length)" by simp
next
  fix s :: string and r wid :: nat
  assume nonempty: "s \<noteq> []" and "(r, wid) = DecodeRune s"
  then have "snd (DecodeRune s) = wid"
    by (cases "DecodeRune s") simp
  with DecodeRune_width_pos [OF nonempty] have "0 < wid"
    by simp
  with nonempty show "(drop wid s, s) \<in> measure length"
    by simp
qed

declare TrimLeftSpace.simps [simp del]

function TrimRightSpace :: "string \<Rightarrow> string" where
  "TrimRightSpace s =
    (if s = [] then []
     else (case DecodeLastRune s of
             (r, width) \<Rightarrow>
               if IsSpace r then TrimRightSpace (take (length s - width) s) else s))"
  by pat_completeness auto
termination
proof (relation "measure length")
  show "wf (measure length)" by simp
next
  fix s :: string and r width :: nat
  assume nonempty: "s \<noteq> []" and "(r, width) = DecodeLastRune s"
  then have "snd (DecodeLastRune s) = width"
    by (cases "DecodeLastRune s") simp
  with DecodeLastRune_width_pos [OF nonempty] have "0 < width"
    by simp
  with nonempty show "(take (length s - width) s, s) \<in> measure length"
    by simp
qed

declare TrimRightSpace.simps [simp del]

definition TrimSpace :: "string \<Rightarrow> string" where
  "TrimSpace s = TrimRightSpace (TrimLeftSpace s)"

section \<open>Files and panics\<close>

text \<open>
  The operating system as the package sees it: \<^verbatim>\<open>filepath.Join\<close> for two elements
  (its cleaning of the path is the platform's, so it is a parameter), the regular
  files with their content, the paths where \<^verbatim>\<open>os.ReadFile\<close> fails for another reason
  than a missing file (permission denied, a directory), the paths where
  \<^verbatim>\<open>os.WriteFile\<close> fails, and the log of the calls of \<^verbatim>\<open>os.WriteFile\<close>.
\<close>

datatype ioerr = ErrNotExist | ErrPermission

record filesystem =
  pathJoin :: "string \<Rightarrow> string \<Rightarrow> string"
  files :: "string \<Rightarrow> string option"
  readFails :: "string \<Rightarrow> bool"
  writeFails :: "string \<Rightarrow> ioerr option"
  writeCalls :: "(string \<times> string) list"

definition IsNotExist :: "ioerr \<Rightarrow> bool" where
  "IsNotExist err \<longleftrightarrow> err = ErrNotExist"

definition ReadFile :: "filesystem \<Rightarrow> string \<Rightarrow> ioerr + string" where
  "ReadFile fs name =
    (if readFails fs name then Inl ErrPermission
     else (case files fs name of None \<Rightarrow> Inl ErrNotExist | Some b \<Rightarrow> Inr b))"

text \<open>
  \<^verbatim>\<open>os.WriteFile(name, data, 0644)\<close> creates the file or replaces its whole content.
  A call that fails leaves the files as they were.
\<close>

definition WriteFile :: "filesystem \<Rightarrow> string \<Rightarrow> string \<Rightarrow> ioerr option \<times> filesystem" where
  "WriteFile fs name data =
    (let fs' = fs\<lparr>writeCalls := writeCalls fs @ [(name, data)]\<rparr> in
     case writeFails fs name of
       Some err \<Rightarrow> (Some err, fs')
     | None \<Rightarrow> (None, fs'\<lparr>files := (files fs)(name \<mapsto> data)\<rparr>))"

text \<open>
  A Go function either returns or unwinds its goroutine without returning: it panics,
  with the value handed to \<^verbatim>\<open>panic\<close> (an \<^verbatim>\<open>error\<close> or a string), or the goroutine is
  ended by \<^verbatim>\<open>runtime.Goexit\<close>, which is what \<^verbatim>\<open>FailNow\<close> of package \<^verbatim>\<open>testing\<close> does.
  The callers in this package recover from neither, so both end them as well.
\<close>

datatype panic = PanicError ioerr | PanicString string | Goexit

datatype 'a outcome = Returns 'a | Panics panic

section \<open>The script parser and the event decoder\<close>

text \<open>
  The loop of \<^verbatim>\<open>readMessageGroups\<close> over the lines of the file; \<open>groups\<close> is the
  slice that \<^verbatim>\<open>append\<close> grows.
\<close>

fun scanLines :: "string list \<Rightarrow> string list list \<Rightarrow> string list list" where
  "scanLines [] groups = groups"
| "scanLines (each # rest) groups =
    (let line = TrimSpace each in
     if line = [] \<or> HasPrefix line ''#'' \<or> HasPrefix line ''//''
     then scanLines rest groups
     else scanLines rest (groups @ [Split line CHR '','']))"

definition readMessageGroups :: "filesystem \<Rightarrow> string \<Rightarrow> string \<Rightarrow> string list list outcome" where
  "readMessageGroups fs snapshotRootDir id' =
    (let filep = pathJoin fs snapshotRootDir (id' @ ''.txt'') in
     case ReadFile fs filep of
       Inl err \<Rightarrow> Panics (PanicError err)
     | Inr b \<Rightarrow> Returns (scanLines (Split b CHR 0x0A) []))"

text \<open>
  The spec's words for the parser: the file is split on line feeds, every line is
  trimmed, a line that is then empty or begins with \<^verbatim>\<open>#\<close> or \<^verbatim>\<open>//\<close> is skipped, and
  every other line is split on commas into one group, in the order of the lines.
\<close>

definition skipped :: "string \<Rightarrow> bool" where
  "skipped line \<longleftrightarrow> line = [] \<or> HasPrefix line ''#'' \<or> HasPrefix line ''//''"

definition parseScript :: "string \<Rightarrow> string list list" where
  "parseScript b =
     map (\<lambda>line. Split line CHR '','')
       (filter (\<lambda>line. \<not> skipped line) (map TrimSpace (Split b CHR 0x0A)))"

text \<open>
  \<^verbatim>\<open>tea.KeyMsg\<close>: the type of the key and, for \<^verbatim>\<open>KeyRunes\<close>, the runes typed. The
  fields that \<^verbatim>\<open>createKey\<close> leaves at their zero value are left out; a nil slice
  and an empty one are both the empty list.
\<close>

datatype KeyType = KeyEnter | KeyTab | KeyEsc | KeyUp | KeyDown | KeyRunes

record Key =
  Type :: KeyType
  Runes :: "nat list"

definition createKey :: "string \<Rightarrow> Key" where
  "createKey s =
    (if s = ''enter'' then \<lparr>Type = KeyEnter, Runes = []\<rparr>
     else if s = ''tab'' then \<lparr>Type = KeyTab, Runes = []\<rparr>
     else if s = ''esc'' then \<lparr>Type = KeyEsc, Runes = []\<rparr>
     else if s = ''up'' then \<lparr>Type = KeyUp, Runes = []\<rparr>
     else if s = ''down'' then \<lparr>Type = KeyDown, Runes = []\<rparr>
     else \<lparr>Type = KeyRunes, Runes = runes s\<rparr>)"

section \<open>The snapshot store\<close>

text \<open>
  \<^verbatim>\<open>VerifyFunc\<close> is the caller's assertion \<^verbatim>\<open>func(expected, actual, message string)\<close>.
  It has no result; what it does (recording a failure of the test) is a change of the
  caller's test state \<open>'t\<close>. It need not return: the assertion of the package's own
  test, \<^verbatim>\<open>require.Equal\<close>, ends the goroutine with \<^verbatim>\<open>FailNow\<close> when the two strings
  differ, and a \<^verbatim>\<open>nil\<close> function panics when it is called. So a call gives the way it
  ends (\<^const>\<open>None\<close>: it returns) and the test state it leaves. It is taken to leave the
  files alone.
\<close>

type_synonym 't VerifyFunc = "string \<Rightarrow> string \<Rightarrow> string \<Rightarrow> 't \<Rightarrow> panic option \<times> 't"

record SnapshotSuite =
  rootDir :: string

record 't Snapshot =
  Name :: string
  filep :: string
  verify :: bool
  equal' :: "'t VerifyFunc"

definition NewSnapshotSuite :: "string \<Rightarrow> SnapshotSuite" where
  "NewSnapshotSuite dir = \<lparr>rootDir = dir\<rparr>"

definition deriveSnapshotFilep :: "filesystem \<Rightarrow> SnapshotSuite \<Rightarrow> string \<Rightarrow> string" where
  "deriveSnapshotFilep fs v name = pathJoin fs (rootDir v) name"

definition NewSnapshot ::
  "filesystem \<Rightarrow> SnapshotSuite \<Rightarrow> string \<Rightarrow> bool \<Rightarrow> 't VerifyFunc \<Rightarrow> 't Snapshot" where
  "NewSnapshot fs v name vfy eq =
    \<lparr>Name = name, filep = deriveSnapshotFilep fs v name, verify = vfy, equal' = eq\<rparr>"

definition read :: "'t Snapshot \<Rightarrow> filesystem \<Rightarrow> ioerr + string" where
  "read v fs =
    (case ReadFile fs (filep v) of
       Inl err \<Rightarrow> if IsNotExist err then Inr [] else Inl err
     | Inr b \<Rightarrow> Inr b)"

definition write' :: "'t Snapshot \<Rightarrow> string \<Rightarrow> filesystem \<Rightarrow> ioerr option \<times> filesystem" where
  "write' v content fs = WriteFile fs (filep v) content"

text \<open>
  \<^verbatim>\<open>Run\<close> returns an \<^verbatim>\<open>error\<close> (\<^const>\<open>None\<close> is \<^verbatim>\<open>nil\<close>), or it does not return
  because the call of \<^verbatim>\<open>v.equal\<close> does not; the result comes with the files and the
  test state as \<^verbatim>\<open>Run\<close> leaves them.
\<close>

definition Run ::
  "'t Snapshot \<Rightarrow> string \<Rightarrow> filesystem \<times> 't \<Rightarrow> ioerr option outcome \<times> filesystem \<times> 't" where
  "Run v view w =
    (case read v (fst w) of
       Inl err \<Rightarrow> (Returns (Some err), w)
     | Inr content \<Rightarrow>
        if verify v \<and> content \<noteq> []
          then (case equal' v content view (Name v) (snd w) of
                  (None, t') \<Rightarrow> (Returns None, fst w, t')
                | (Some p, t') \<Rightarrow> (Panics p, fst w, t'))
        else if view \<noteq> content
          then (case write' v view (fst w) of (err, fs') \<Rightarrow> (Returns err, fs', snd w))
        else (Returns None, w))"

section \<open>The replay engine\<close>

text \<open>
  \<^verbatim>\<open>tea.Msg\<close> is the empty interface. The values that reach \<^verbatim>\<open>Update\<close> here are
  the \<^verbatim>\<open>nil\<close> interface, a \<^verbatim>\<open>tea.KeyMsg\<close>, a \<^verbatim>\<open>tea.Cmd\<close> (the engine hands the
  result of \<^verbatim>\<open>Init\<close> to \<^verbatim>\<open>runUpdates\<close> as its message) and the component's own
  messages, of type \<open>'a\<close>. A \<^verbatim>\<open>tea.Cmd\<close> is a function without arguments that returns
  a message, or \<^verbatim>\<open>nil\<close>: \<^const>\<open>None\<close> is the \<^verbatim>\<open>nil\<close> command, and \<open>Some msg\<close> the
  command that returns \<open>msg\<close> when it is called. Commands are taken to return.
\<close>

datatype 'a Msg = NilMsg | KeyMsg Key | CmdMsg "'a Msg option" | AppMsg 'a

type_synonym 'a Cmd = "'a Msg option"

text \<open>
  \<^verbatim>\<open>tea.Model\<close> is an interface with the methods \<^verbatim>\<open>Init\<close>, \<^verbatim>\<open>Update\<close> and
  \<^verbatim>\<open>View\<close>. A component is the three methods over the values \<open>'s\<close> that
  \<^verbatim>\<open>Update\<close> returns as the next model.
\<close>

record ('s, 'a) Model =
  Init :: "'s \<Rightarrow> 'a Cmd"
  Update :: "'s \<Rightarrow> 'a Msg \<Rightarrow> 's \<times> 'a Cmd"
  View :: "'s \<Rightarrow> string"

text \<open>
  The loop of \<^verbatim>\<open>runUpdates\<close>, with its variables \<open>counter\<close>, \<open>m\<close> and \<open>cmd\<close>. The
  result is the panic, if any, and the value of \<open>m\<close> when the loop ends or panics.
\<close>

function updateLoop ::
  "('s, 'a) Model \<Rightarrow> int \<Rightarrow> 's \<Rightarrow> 'a Cmd \<Rightarrow> panic option \<times> 's" where
  "updateLoop c counter m cmd =
    (case cmd of
       None \<Rightarrow> (None, m)
     | Some msg \<Rightarrow>
        (case Update c m msg of
           (m', cmd') \<Rightarrow>
             if counter - 1 \<le> 0 then (Some (PanicString ''counter == 0, eternal loop''), m')
             else updateLoop c (counter - 1) m' cmd'))"
  by pat_completeness auto
termination
  by (relation "measure (\<lambda>(c, counter, m, cmd). nat counter)") auto

declare updateLoop.simps [simp del]

definition runUpdates :: "('s, 'a) Model \<Rightarrow> 's \<Rightarrow> 'a Msg \<Rightarrow> panic option \<times> 's" where
  "runUpdates c m msg = (case Update c m msg of (m', cmd) \<Rightarrow> updateLoop c 100 m' cmd)"

text \<open>
  The spec's words for one step of settling: force the Effect to obtain an Event (no
  Effect: nothing is left to do) and call \<^verbatim>\<open>update\<close> with it, which gives the next
  component and the next Effect. \<open>(settleStep c ^^ k) (m, cmd)\<close> is the component and
  the Effect after \<open>k\<close> steps from \<open>(m, cmd)\<close>.
\<close>

definition settleStep :: "('s, 'a) Model \<Rightarrow> 's \<times> 'a Cmd \<Rightarrow> 's \<times> 'a Cmd" where
  "settleStep c p = (case snd p of None \<Rightarrow> p | Some msg \<Rightarrow> Update c (fst p) msg)"

text \<open>
  The closure \<^verbatim>\<open>runSnapshot\<close>: the snapshot it creates, and its run on the view of
  the model; an error of \<^verbatim>\<open>Run\<close> becomes a panic, and a \<^verbatim>\<open>Run\<close> that does not
  return ends the closure the same way.
\<close>

definition snapshotOf ::
  "filesystem \<Rightarrow> SnapshotSuite \<Rightarrow> bool \<Rightarrow> string \<Rightarrow> 't VerifyFunc \<Rightarrow> nat \<Rightarrow> 't Snapshot" where
  "snapshotOf fs snapshotSuite vfy seriesID eq i =
     NewSnapshot fs snapshotSuite (Sprintf_s_03d seriesID (int i)) vfy eq"

definition runSnapshot ::
  "SnapshotSuite \<Rightarrow> ('s, 'a) Model \<Rightarrow> bool \<Rightarrow> string \<Rightarrow> 't VerifyFunc \<Rightarrow> nat \<Rightarrow> 's
    \<Rightarrow> filesystem \<times> 't \<Rightarrow> panic option \<times> filesystem \<times> 't" where
  "runSnapshot snapshotSuite c vfy seriesID eq i m w =
    (let snapshot = snapshotOf (fst w) snapshotSuite vfy seriesID eq i in
     case Run snapshot (View c m) w of
       (Returns (Some err), w') \<Rightarrow> (Some (PanicError err), w')
     | (Returns None, w') \<Rightarrow> (None, w')
     | (Panics p, w') \<Rightarrow> (Some p, w'))"

text \<open>The inner loop of \<^verbatim>\<open>RunBubbleTeaSnapshots\<close>, over the tokens of one group.\<close>

fun deliverGroup :: "('s, 'a) Model \<Rightarrow> 's \<Rightarrow> string list \<Rightarrow> panic option \<times> 's" where
  "deliverGroup c m [] = (None, m)"
| "deliverGroup c m (each # rest) =
    (case runUpdates c m (KeyMsg (createKey each)) of
       (Some p, m') \<Rightarrow> (Some p, m')
     | (None, m') \<Rightarrow> deliverGroup c m' rest)"

text \<open>The outer loop, over the groups; \<open>i\<close> is the index of the first group left.\<close>

fun replayGroups ::
  "SnapshotSuite \<Rightarrow> ('s, 'a) Model \<Rightarrow> bool \<Rightarrow> string \<Rightarrow> 't VerifyFunc \<Rightarrow> nat
    \<Rightarrow> string list list \<Rightarrow> 's \<Rightarrow> filesystem \<times> 't \<Rightarrow> panic option \<times> 's \<times> filesystem \<times> 't" where
  "replayGroups snapshotSuite c vfy seriesID eq i [] m w = (None, m, w)"
| "replayGroups snapshotSuite c vfy seriesID eq i (grp # rest) m w =
    (case deliverGroup c m grp of
       (Some p, m') \<Rightarrow> (Some p, m', w)
     | (None, m') \<Rightarrow>
        (case runSnapshot snapshotSuite c vfy seriesID eq (i + 1) m' w of
           (Some p, w') \<Rightarrow> (Some p, m', w')
         | (None, w') \<Rightarrow> replayGroups snapshotSuite c vfy seriesID eq (i + 1) rest m' w'))"

text \<open>
  The lines \<^verbatim>\<open>cmd := m.Init(); m.View(); m = runUpdates(m, cmd)\<close>: the result of
  \<^verbatim>\<open>View\<close> is dropped, and the command is the message of the first \<^verbatim>\<open>Update\<close>.
\<close>

definition settleInit :: "('s, 'a) Model \<Rightarrow> 's \<Rightarrow> panic option \<times> 's" where
  "settleInit c m =
    (let cmd = Init c m;
         _ = View c m
     in runUpdates c m (CmdMsg cmd))"

text \<open>
  \<^verbatim>\<open>RunBubbleTeaSnapshots\<close>. The result is the panic, if any, the model, the files and
  the test state when the function returns or panics.
\<close>

definition RunBubbleTeaSnapshots ::
  "SnapshotSuite \<Rightarrow> ('s, 'a) Model \<Rightarrow> 's \<Rightarrow> bool \<Rightarrow> string \<Rightarrow> 't VerifyFunc
    \<Rightarrow> filesystem \<times> 't \<Rightarrow> panic option \<times> 's \<times> filesystem \<times> 't" where
  "RunBubbleTeaSnapshots snapshotSuite c m vfy seriesID eq w =
    (case readMessageGroups (fst w) (rootDir snapshotSuite) seriesID of
       Panics p \<Rightarrow> (Some p, m, w)
     | Returns messageGroups \<Rightarrow>
        (case settleInit c m of
           (Some p, m') \<Rightarrow> (Some p, m', w)
         | (None, m') \<Rightarrow>
            (case runSnapshot snapshotSuite c vfy seriesID eq 0 m' w of
               (Some p, w') \<Rightarrow> (Some p, m', w')
             | (None, w') \<Rightarrow>
                replayGroups snapshotSuite c vfy seriesID eq 0 messageGroups m' w')))"

section \<open>Example inputs\<close>

text \<open>
  A file system where every path can be read and written, with \<^verbatim>\<open>filepath.Join\<close> as
  it is for two plain names, and the script of the spec's parsing example.
\<close>

definition plainFS :: "(string \<Rightarrow> string option) \<Rightarrow> filesystem" where
  "plainFS fl =
    \<lparr>pathJoin = (\<lambda>dir name. dir @ ''/'' @ name), files = fl, readFails = (\<lambda>name. False),
     writeFails = (\<lambda>name. None), writeCalls = []\<rparr>"

definition exampleScript :: string where
  "exampleScript = ''a,b'' @ [CHR 0x0A] @ ''# comment'' @ [CHR 0x0A, CHR 0x0A] @ ''c''"

text \<open>
  An assertion function that only records its calls and returns, the assertion
  \<^verbatim>\<open>require.Equal\<close> of the package's test (it returns when the strings are equal;
  otherwise it records the failure and ends the goroutine), two snapshots of the suite
  \<^verbatim>\<open>testdata/snapshots\<close> (\<open>testSnapshot\<close> is the one the package's test creates, in
  verify mode with \<^verbatim>\<open>require.Equal\<close>), a sequence of calls of
  \<^verbatim>\<open>Run\<close> (each on the files and the test state the call before left), and a component
  that records the messages \<^verbatim>\<open>Update\<close> receives and shows how many they are.
\<close>

definition recordCalls :: "(string \<times> string \<times> string) list VerifyFunc" where
  "recordCalls expected actual message t = (None, t @ [(expected, actual, message)])"

definition requireEqual :: "(string \<times> string \<times> string) list VerifyFunc" where
  "requireEqual expected actual message t =
    (if expected = actual then (None, t) else (Some Goexit, t @ [(expected, actual, message)]))"

definition exampleSnapshot :: "bool \<Rightarrow> (string \<times> string \<times> string) list Snapshot" where
  "exampleSnapshot vfy =
     NewSnapshot (plainFS Map.empty) (NewSnapshotSuite ''testdata/snapshots'') ''x_wins'' vfy
       recordCalls"

definition testSnapshot :: "(string \<times> string \<times> string) list Snapshot" where
  "testSnapshot =
     NewSnapshot (plainFS Map.empty) (NewSnapshotSuite ''testdata/snapshots'') ''x_wins'' True
       requireEqual"

fun RunAll :: "('t Snapshot \<times> string) list \<Rightarrow> filesystem \<times> 't \<Rightarrow> filesystem \<times> 't" where
  "RunAll [] w = w"
| "RunAll ((v, view) # rest) w = RunAll rest (snd (Run v view w))"

definition recorder :: "'a Cmd \<Rightarrow> ('a Msg list, 'a) Model" where
  "recorder cmd =
    \<lparr>Init = (\<lambda>s. cmd), Update = (\<lambda>s msg. (s @ [msg], None)), View = (\<lambda>s. decimal (length s))\<rparr>"

text \<open>
  Two components for the settle loop: \<open>countdown\<close> in the state \<open>n\<close> answers the next
  \<open>n\<close> updates with a follow-up Effect and then with none; \<open>ticker\<close> answers every
  update with a follow-up Effect and counts the updates.
\<close>

definition countdown :: "(nat, unit) Model" where
  "countdown =
    \<lparr>Init = (\<lambda>n. None),
     Update = (\<lambda>n msg. if n = 0 then (0, None) else (n - 1, Some NilMsg)),
     View = decimal\<rparr>"

definition ticker :: "(nat, unit) Model" where
  "ticker = \<lparr>Init = (\<lambda>n. None), Update = (\<lambda>n msg. (Suc n, Some NilMsg)), View = decimal\<rparr>"

section \<open>Properties of the decoder and the sanitizer\<close>

lemma acceptRange_cases:
  assumes "acceptRange s0 = Some (sz, lo, hi)"
  obtains "0xC2 \<le> s0" "s0 \<le> 0xDF" "sz = 2"
    | "s0 = 0xE0" "sz = 3" "lo = 0xA0"
    | "0xE1 \<le> s0" "s0 \<le> 0xEF" "sz = 3"
    | "s0 = 0xF0" "sz = 4" "lo = 0x90"
    | "0xF1 \<le> s0" "s0 \<le> 0xF4" "sz = 4"
  using assms unfolding acceptRange_def by (simp split: if_splits)

lemma lead2: "0xC2 \<le> (s0::nat) \<Longrightarrow> s0 \<le> 0xDF \<Longrightarrow> 2 \<le> s0 mod 32"
  by presburger

lemma lead3: "0xE1 \<le> (s0::nat) \<Longrightarrow> s0 \<le> 0xEF \<Longrightarrow> 1 \<le> s0 mod 16"
  by presburger

lemma lead4: "0xF1 \<le> (s0::nat) \<Longrightarrow> s0 \<le> 0xF4 \<Longrightarrow> 1 \<le> s0 mod 8"
  by presburger

lemma second3: "0xA0 \<le> (s1::nat) \<Longrightarrow> s1 \<le> 0xBF \<Longrightarrow> 32 \<le> s1 mod 64"
  by presburger

lemma second4: "0x90 \<le> (s1::nat) \<Longrightarrow> s1 \<le> 0xBF \<Longrightarrow> 16 \<le> s1 mod 64"
  by presburger

lemma big2: "2 \<le> (a::nat) \<Longrightarrow> 0x80 \<le> a * 64 + b"
  by simp

lemma big3: "1 \<le> (a::nat) \<or> 32 \<le> b \<Longrightarrow> 0x80 \<le> a * 4096 + b * 64 + c"
  by auto

lemma big4: "1 \<le> (a::nat) \<or> 16 \<le> b \<Longrightarrow> 0x80 \<le> a * 262144 + b * 4096 + c * 64 + d"
  by auto

lemma DecodeRune_multi:
  assumes "acceptRange s0 = Some (sz, lo, hi)" and "lo \<le> s1" and "s1 \<le> hi" and "hi \<le> 0xBF"
  shows "(sz = 2 \<and> 2 \<le> s0 mod 32) \<or> (sz = 3 \<and> (1 \<le> s0 mod 16 \<or> 32 \<le> s1 mod 64))
         \<or> (sz = 4 \<and> (1 \<le> s0 mod 8 \<or> 16 \<le> s1 mod 64))"
  using assms(1)
proof (cases rule: acceptRange_cases)
  case 1 then show ?thesis using lead2 by simp
next
  case 2 then show ?thesis using second3 [of s1] assms by simp
next
  case 3 then show ?thesis using lead3 by simp
next
  case 4 then show ?thesis using second4 [of s1] assms by simp
next
  case 5 then show ?thesis using lead4 by simp
qed

lemma acceptRange_hi: "acceptRange s0 = Some (sz, lo, hi) \<Longrightarrow> hi \<le> 0xBF"
  unfolding acceptRange_def by (auto split: if_splits)

lemma DecodeRune_Cons_cases:
  assumes "DecodeRune (c # cs) = (r, w)"
  shows "(w = 1 \<and> byte c < 0x80 \<and> r = byte c) \<or> (w = 1 \<and> r = RuneError)
         \<or> (2 \<le> w \<and> 0x80 \<le> r)"
proof (cases "byte c < 0x80")
  case True
  with assms show ?thesis by (simp add: DecodeRune_def)
next
  case False
  show ?thesis
  proof (cases "acceptRange (byte c)")
    case None
    with False assms show ?thesis by (simp add: DecodeRune_def)
  next
    case (Some t)
    obtain sz lo hi where t: "t = (sz, lo, hi)" by (cases t)
    note ar = Some [unfolded t]
    define s1 where "s1 = byte ((c # cs) ! 1)"
    show ?thesis
    proof (cases "length (c # cs) < sz \<or> s1 < lo \<or> hi < s1")
      case True
      with False assms ar show ?thesis
        by (auto simp: DecodeRune_def s1_def Let_def split: if_splits)
    next
      case inrange: False
      then have "lo \<le> s1" "s1 \<le> hi" by simp_all
      from DecodeRune_multi [OF ar this acceptRange_hi [OF ar]]
      consider "sz = 2" "2 \<le> byte c mod 32"
        | "sz = 3" "1 \<le> byte c mod 16 \<or> 32 \<le> s1 mod 64"
        | "sz = 4" "1 \<le> byte c mod 8 \<or> 16 \<le> s1 mod 64"
        by blast
      then show ?thesis
      proof cases
        case 1
        with False assms ar inrange show ?thesis
          using big2 [of "byte c mod 32" "s1 mod 64"]
          by (auto simp: DecodeRune_def s1_def Let_def split: if_splits)
      next
        case 2
        with False assms ar inrange show ?thesis
          using big3 [of "byte c mod 16" "s1 mod 64" "byte ((c # cs) ! 2) mod 64"]
          by (auto simp: DecodeRune_def s1_def Let_def split: if_splits)
      next
        case 3
        with False assms ar inrange show ?thesis
          using big4 [of "byte c mod 8" "s1 mod 64" "byte ((c # cs) ! 2) mod 64"
              "byte ((c # cs) ! 3) mod 64"]
          by (auto simp: DecodeRune_def s1_def Let_def split: if_splits)
      qed
    qed
  qed
qed

lemma safeRune_less: "safeRune r \<Longrightarrow> r < 0x80"
  by (auto simp: safeRune_def)

lemma not_safeRune_RuneError: "\<not> safeRune RuneError"
  by (simp add: safeRune_def RuneError_def)

lemma DecodeRune_safe:
  assumes "s \<noteq> []" and "DecodeRune s = (r, w)" and "safeRune r"
  shows "w = 1 \<and> take w s = [char_of r]"
proof -
  obtain c cs where s: "s = c # cs" using assms(1) by (cases s) auto
  from DecodeRune_Cons_cases [OF assms(2) [unfolded s]] safeRune_less [OF assms(3)]
    not_safeRune_RuneError assms(3)
  have "w = 1 \<and> r = byte c" by auto
  then show ?thesis by (simp add: s byte_def)
qed

lemma ToSafeFilename_Nil: "ToSafeFilename [] = []"
  by (simp add: ToSafeFilename.simps)

lemma runes_Nil: "runes [] = []"
  by (simp add: runes.simps)

lemma ToSafeFilename_runes: "ToSafeFilename s = map sanitizeRune (runes s)"
proof (induction s rule: ToSafeFilename.induct)
  case (1 s)
  show ?case
  proof (cases "s = []")
    case True
    then show ?thesis by (simp add: ToSafeFilename_Nil runes_Nil)
  next
    case False
    obtain r w where d: "DecodeRune s = (r, w)" by (cases "DecodeRune s")
    have ih: "ToSafeFilename (drop w s) = map sanitizeRune (runes (drop w s))"
      using "1.IH" [OF False d [symmetric]] .
    have head: "(if safeRune r then take w s else ''_'') = [sanitizeRune r]"
      using DecodeRune_safe [OF False d] by (auto simp: sanitizeRune_def)
    have "ToSafeFilename s = (if safeRune r then take w s else ''_'') @ ToSafeFilename (drop w s)"
      using False d by (subst ToSafeFilename.simps) simp
    moreover have "runes s = r # runes (drop w s)"
      using False d by (subst runes.simps) simp
    ultimately show ?thesis using ih head by simp
  qed
qed

lemma safe_sanitizeRune: "safeRune (byte (sanitizeRune r))"
proof (cases "safeRune r")
  case True
  then have "r < 256" using safeRune_less [of r] by simp
  then have "byte (char_of r) = r" by (simp add: byte_def)
  with True show ?thesis by (simp add: sanitizeRune_def)
next
  case False
  then show ?thesis by (simp add: sanitizeRune_def safeRune_def byte_def)
qed

lemma length_runes_le: "length (runes s) \<le> length s"
proof (induction s rule: runes.induct)
  case (1 s)
  show ?case
  proof (cases "s = []")
    case True
    then show ?thesis by (simp add: runes_Nil)
  next
    case False
    obtain r w where d: "DecodeRune s = (r, w)" by (cases "DecodeRune s")
    have "0 < w" using DecodeRune_width_pos [OF False] d by simp
    moreover have "length (runes (drop w s)) \<le> length (drop w s)"
      using "1.IH" [OF False d [symmetric]] .
    moreover have "runes s = r # runes (drop w s)"
      using False d by (subst runes.simps) simp
    moreover have "0 < length s" using False by simp
    ultimately have "Suc (length (runes (drop w s))) \<le> length s" and "runes s = r # runes (drop w s)"
      by (simp_all del: length_greater_0_conv)
    then show ?thesis by simp
  qed
qed

lemma DecodeRune_ASCII: "byte c < 0x80 \<Longrightarrow> DecodeRune (c # cs) = (byte c, 1)"
  by (simp add: DecodeRune_def)

lemma runes_ASCII: "isASCII s \<Longrightarrow> runes s = map byte s"
proof (induction s)
  case Nil
  show ?case by (simp add: runes_Nil)
next
  case (Cons c cs)
  then have "byte c < 0x80" and "isASCII cs" by (simp_all add: isASCII_def)
  then show ?case
    using Cons.IH by (subst runes.simps) (simp add: DecodeRune_ASCII)
qed

lemma DecodeRune_e_acute: "DecodeRune [CHR 0xC3, CHR 0xA9] = (0xE9, 2)"
  by (simp add: DecodeRune_def acceptRange_def byte_def)

lemma ToSafeFilename_e_acute: "ToSafeFilename [CHR 0xC3, CHR 0xA9] = ''_''"
  by (subst ToSafeFilename.simps) (simp add: DecodeRune_e_acute safeRune_def ToSafeFilename_Nil)

lemma ToSafeFilename_ASCII:
  "isASCII s \<Longrightarrow> ToSafeFilename s = map (\<lambda>c. if safeRune (byte c) then c else CHR ''_'') s"
proof (induction s)
  case Nil
  show ?case by (simp add: ToSafeFilename_Nil)
next
  case (Cons c cs)
  then have "byte c < 0x80" and "isASCII cs" by (simp_all add: isASCII_def)
  then show ?case
    using Cons.IH by (subst ToSafeFilename.simps) (simp add: DecodeRune_ASCII)
qed

text \<open>
  Claim C9, as the code has it. \<^verbatim>\<open>ToSafeFilename(s)\<close> holds only characters of
  \<^verbatim>\<open>[0-9A-Za-z-._]\<close>, and it holds one byte for every character of \<open>s\<close>, where the
  characters of \<open>s\<close> are the runes that Go decodes (a byte that starts no valid UTF-8
  encoding is one character): a character of the set is kept, any other character
  becomes one underscore, and nothing is collapsed. So the length of the result in bytes
  is the number of characters of \<open>s\<close>; it is at most \<^verbatim>\<open>len(s)\<close>, and it is
  \<^verbatim>\<open>len(s)\<close> when \<open>s\<close> is ASCII.
\<close>

theorem ToSafeFilename_one_for_one:
  "list_all (\<lambda>c. safeRune (byte c)) (ToSafeFilename s)
   \<and> ToSafeFilename s = map sanitizeRune (runes s)
   \<and> length (ToSafeFilename s) = length (runes s)
   \<and> length (ToSafeFilename s) \<le> length s
   \<and> (isASCII s \<longrightarrow> length (ToSafeFilename s) = length s)"
proof -
  have chars: "ToSafeFilename s = map sanitizeRune (runes s)"
    by (rule ToSafeFilename_runes)
  have "list_all (\<lambda>c. safeRune (byte c)) (map sanitizeRune (runes s))"
    by (simp add: list_all_iff safe_sanitizeRune)
  moreover have "length (map sanitizeRune (runes s)) \<le> length s"
    using length_runes_le [of s] by simp
  moreover have "isASCII s \<longrightarrow> length (map sanitizeRune (runes s)) = length s"
    by (simp add: runes_ASCII)
  ultimately show ?thesis
    unfolding chars by simp
qed

theorem ToSafeFilename_one_for_one_witness:
  "isASCII ''x wins'' \<and> length (ToSafeFilename ''x wins'') = length ''x wins''
   \<and> list_all (\<lambda>c. safeRune (byte c)) (ToSafeFilename ''x wins'')"
proof -
  have "isASCII ''x wins''"
    by (simp add: isASCII_def byte_def)
  then show ?thesis
    using ToSafeFilename_one_for_one [of "''x wins''"] by blast
qed

text \<open>
  Claim C9 as it is stated fails on a character of more than one byte: the two bytes
  of U+00E9 become one underscore, so \<^verbatim>\<open>len\<close> is not preserved.
\<close>

theorem ToSafeFilename_length_counterexample:
  "length (ToSafeFilename [CHR 0xC3, CHR 0xA9]) \<noteq> length [CHR 0xC3, CHR 0xA9]"
  by (simp add: ToSafeFilename_e_acute)

section \<open>Properties of the script parser\<close>

lemma scanLines_append:
  "scanLines ls groups =
     groups @ map (\<lambda>line. Split line CHR '','') (filter (\<lambda>line. \<not> skipped line) (map TrimSpace ls))"
  by (induction ls arbitrary: groups) (simp_all add: Let_def skipped_def)

lemma Split_no_sep: "sep \<notin> set s \<Longrightarrow> Split s sep = [s]"
  by (subst Split.simps) simp

lemma Split_at_sep:
  assumes "sep \<notin> set u"
  shows "Split (u @ sep # v) sep = u # Split v sep"
proof -
  have "takeWhile (\<lambda>c. c \<noteq> sep) (u @ sep # v) = u"
    using assms by (induction u) auto
  moreover have "dropWhile (\<lambda>c. c \<noteq> sep) (u @ sep # v) = sep # v"
    using assms by (induction u) auto
  ultimately show ?thesis
    by (subst Split.simps) simp
qed

lemma Split_nonempty: "Split s sep \<noteq> []"
  by (subst Split.simps) simp

lemma joinWith_Cons: "ys \<noteq> [] \<Longrightarrow> joinWith sep (x # ys) = x @ sep # joinWith sep ys"
  by (cases ys) simp_all

lemma joinWith_Split: "joinWith sep (Split s sep) = s"
proof (induction s sep rule: Split.induct)
  case (1 s sep)
  show ?case
  proof (cases "sep \<in> set s")
    case True
    have "takeWhile (\<lambda>c. c \<noteq> sep) s @ dropWhile (\<lambda>c. c \<noteq> sep) s = s"
      by simp
    moreover have "dropWhile (\<lambda>c. c \<noteq> sep) s \<noteq> []"
      using True by simp
    moreover have "hd (dropWhile (\<lambda>c. c \<noteq> sep) s) = sep"
      using True hd_dropWhile [of "\<lambda>c. c \<noteq> sep" s] by simp
    ultimately have s: "takeWhile (\<lambda>c. c \<noteq> sep) s @ sep # tl (dropWhile (\<lambda>c. c \<noteq> sep) s) = s"
      by (metis list.collapse)
    have "joinWith sep (Split s sep) =
          takeWhile (\<lambda>c. c \<noteq> sep) s @ sep # joinWith sep (Split (tl (dropWhile (\<lambda>c. c \<noteq> sep) s)) sep)"
      using True by (subst Split.simps) (simp add: joinWith_Cons Split_nonempty)
    then show ?thesis
      using "1.IH" [OF True] s by simp
  next
    case False
    then show ?thesis by (simp add: Split_no_sep)
  qed
qed

lemma Split_tokens_no_sep: "tok \<in> set (Split s sep) \<Longrightarrow> sep \<notin> set tok"
proof (induction s sep rule: Split.induct)
  case (1 s sep)
  show ?case
  proof (cases "sep \<in> set s")
    case True
    from "1.prems" have "tok = takeWhile (\<lambda>c. c \<noteq> sep) s
        \<or> tok \<in> set (Split (tl (dropWhile (\<lambda>c. c \<noteq> sep) s)) sep)"
      using True by (subst (asm) Split.simps) simp
    then show ?thesis
    proof
      assume "tok = takeWhile (\<lambda>c. c \<noteq> sep) s"
      then show ?thesis
        using set_takeWhileD [of sep "\<lambda>c. c \<noteq> sep" s] by auto
    next
      assume "tok \<in> set (Split (tl (dropWhile (\<lambda>c. c \<noteq> sep) s)) sep)"
      then show ?thesis by (rule "1.IH" [OF True])
    qed
  next
    case False
    with "1.prems" show ?thesis by (simp add: Split_no_sep)
  qed
qed

lemma DecodeLastRune_ASCII: "byte c < 0x80 \<Longrightarrow> DecodeLastRune (cs @ [c]) = (byte c, 1)"
  by (simp add: DecodeLastRune_def)

lemma TrimLeftSpace_Nil: "TrimLeftSpace [] = []"
  by (simp add: TrimLeftSpace.simps)

lemma TrimRightSpace_Nil: "TrimRightSpace [] = []"
  by (simp add: TrimRightSpace.simps)

lemma TrimLeftSpace_ASCII:
  "isASCII s \<Longrightarrow> TrimLeftSpace s = dropWhile (\<lambda>c. IsSpace (byte c)) s"
proof (induction s)
  case Nil
  show ?case by (simp add: TrimLeftSpace_Nil)
next
  case (Cons c cs)
  then have "byte c < 0x80" and "isASCII cs" by (simp_all add: isASCII_def)
  then show ?case
    using Cons.IH by (subst TrimLeftSpace.simps) (simp add: DecodeRune_ASCII)
qed

lemma TrimRightSpace_ASCII:
  "isASCII s \<Longrightarrow> TrimRightSpace s = rev (dropWhile (\<lambda>c. IsSpace (byte c)) (rev s))"
proof (induction s rule: rev_induct)
  case Nil
  show ?case by (simp add: TrimRightSpace_Nil)
next
  case (snoc c cs)
  then have "byte c < 0x80" and "isASCII cs" by (simp_all add: isASCII_def)
  then show ?case
    using snoc.IH by (subst TrimRightSpace.simps) (simp add: DecodeLastRune_ASCII)
qed

lemma isASCII_dropWhile: "isASCII s \<Longrightarrow> isASCII (dropWhile P s)"
  unfolding isASCII_def list_all_iff using set_dropWhileD by fast

lemma TrimSpace_ASCII:
  "isASCII s \<Longrightarrow>
     TrimSpace s = rev (dropWhile (\<lambda>c. IsSpace (byte c)) (rev (dropWhile (\<lambda>c. IsSpace (byte c)) s)))"
  by (simp add: TrimSpace_def TrimLeftSpace_ASCII TrimRightSpace_ASCII isASCII_dropWhile)

lemma parseScript_example: "parseScript exampleScript = [[''a'', ''b''], [''c'']]"
  by (simp add: exampleScript_def parseScript_def Split.simps TrimSpace_ASCII isASCII_def byte_def
      IsSpace_def skipped_def HasPrefix_def)

lemma createKey_literal:
  "isASCII s \<Longrightarrow> s \<notin> {''enter'', ''tab'', ''esc'', ''up'', ''down''} \<Longrightarrow>
     createKey s = \<lparr>Type = KeyRunes, Runes = map byte s\<rparr>"
  by (simp add: createKey_def runes_ASCII)

text \<open>
  Claim C7. When the script file can be read, \<^verbatim>\<open>readMessageGroups\<close> returns what the
  spec's words describe: the content split on line feeds, each line trimmed, the lines
  that are empty after trimming or begin with \<^verbatim>\<open>#\<close> or \<^verbatim>\<open>//\<close> skipped, each other line
  split on commas into one group, in the order of the lines. The file
  \<^verbatim>\<open>"a,b\\n# comment\\n\\nc"\<close> gives exactly the two groups \<^verbatim>\<open>[a, b]\<close> and \<^verbatim>\<open>[c]\<close>, which
  \<^verbatim>\<open>createKey\<close> decodes to the literal-text events of these tokens.
\<close>

theorem readMessageGroups_parseScript:
  "(ReadFile fs (pathJoin fs dir (runID @ ''.txt'')) = Inr b \<longrightarrow>
      readMessageGroups fs dir runID = Returns (parseScript b))
   \<and> parseScript (''a,b'' @ [CHR 0x0A] @ ''# comment'' @ [CHR 0x0A, CHR 0x0A] @ ''c'')
       = [[''a'', ''b''], [''c'']]
   \<and> map (map createKey) [[''a'', ''b''], [''c'']]
       = [[\<lparr>Type = KeyRunes, Runes = [0x61]\<rparr>, \<lparr>Type = KeyRunes, Runes = [0x62]\<rparr>],
          [\<lparr>Type = KeyRunes, Runes = [0x63]\<rparr>]]"
proof -
  have "readMessageGroups fs dir runID = Returns (parseScript b)"
    if "ReadFile fs (pathJoin fs dir (runID @ ''.txt'')) = Inr b"
    using that by (simp add: readMessageGroups_def parseScript_def scanLines_append)
  moreover have "map (map createKey) [[''a'', ''b''], [''c'']]
       = [[\<lparr>Type = KeyRunes, Runes = [0x61]\<rparr>, \<lparr>Type = KeyRunes, Runes = [0x62]\<rparr>],
          [\<lparr>Type = KeyRunes, Runes = [0x63]\<rparr>]]"
    by (simp add: createKey_literal isASCII_def byte_def)
  ultimately show ?thesis
    using parseScript_example by (simp add: exampleScript_def)
qed

theorem readMessageGroups_parseScript_witness:
  "ReadFile (plainFS [''testdata/run1.txt'' \<mapsto> exampleScript])
      (pathJoin (plainFS [''testdata/run1.txt'' \<mapsto> exampleScript]) ''testdata'' (''run1'' @ ''.txt''))
     = Inr exampleScript
   \<and> readMessageGroups (plainFS [''testdata/run1.txt'' \<mapsto> exampleScript]) ''testdata'' ''run1''
     = Returns [[''a'', ''b''], [''c'']]"
proof -
  have rd: "ReadFile (plainFS [''testdata/run1.txt'' \<mapsto> exampleScript])
      (pathJoin (plainFS [''testdata/run1.txt'' \<mapsto> exampleScript]) ''testdata'' (''run1'' @ ''.txt''))
     = Inr exampleScript"
    by (simp add: ReadFile_def plainFS_def)
  with readMessageGroups_parseScript
    [of "plainFS [''testdata/run1.txt'' \<mapsto> exampleScript]" "''testdata''" "''run1''" exampleScript]
  have "readMessageGroups (plainFS [''testdata/run1.txt'' \<mapsto> exampleScript]) ''testdata'' ''run1''
     = Returns (parseScript exampleScript)"
    by blast
  with rd show ?thesis
    by (simp add: parseScript_example)
qed

text \<open>
  Claim C10. The tokens of a line that is not skipped are the pieces of the trimmed line
  between its commas, byte for byte: joining them with commas gives the trimmed line
  back, and no token holds a comma, so white space next to a comma stays in its token.
  A comma that follows a
  comma-free piece cuts exactly that piece off, so a comma at the start of the rest
  (two commas in a row) gives an empty token, and so does the empty rest after a last
  comma. The empty token decodes to the literal-text event without runes. The line
  \<^verbatim>\<open>"a, b"\<close> gives the tokens \<^verbatim>\<open>"a"\<close> and \<^verbatim>\<open>" b"\<close>, and \<^verbatim>\<open>" b"\<close> decodes to another
  event than \<^verbatim>\<open>"b"\<close>.
\<close>

theorem script_tokens_verbatim:
  "(\<not> skipped (TrimSpace line) \<longrightarrow>
      scanLines [line] [] = [Split (TrimSpace line) CHR '','']
      \<and> joinWith CHR '','' (Split (TrimSpace line) CHR '','') = TrimSpace line
      \<and> list_all (\<lambda>tok. CHR '','' \<notin> set tok) (Split (TrimSpace line) CHR '',''))
   \<and> (CHR '','' \<notin> set u \<longrightarrow> Split (u @ CHR '','' # v) CHR '','' = u # Split v CHR '','')
   \<and> Split [] CHR '','' = [[]]
   \<and> createKey [] = \<lparr>Type = KeyRunes, Runes = []\<rparr>
   \<and> scanLines [''a, b''] [] = [[''a'', '' b'']]
   \<and> map createKey [''a'', '' b'']
       = [\<lparr>Type = KeyRunes, Runes = [0x61]\<rparr>, \<lparr>Type = KeyRunes, Runes = [0x20, 0x62]\<rparr>]
   \<and> createKey '' b'' \<noteq> createKey ''b''
   \<and> scanLines [''a,,b,''] [] = [[''a'', [], ''b'', []]]"
proof -
  have "scanLines [line] [] = [Split (TrimSpace line) CHR '','']" if "\<not> skipped (TrimSpace line)"
    using that by (simp add: scanLines_append)
  moreover have "joinWith CHR '','' (Split (TrimSpace line) CHR '','') = TrimSpace line"
    by (rule joinWith_Split)
  moreover have "list_all (\<lambda>tok. CHR '','' \<notin> set tok) (Split (TrimSpace line) CHR '','')"
    unfolding list_all_iff using Split_tokens_no_sep by fast
  moreover have "Split (u @ CHR '','' # v) CHR '','' = u # Split v CHR '',''" if "CHR '','' \<notin> set u"
    using that by (rule Split_at_sep)
  moreover have "Split [] CHR '','' = [[]]"
    by (simp add: Split_no_sep)
  moreover have "createKey [] = \<lparr>Type = KeyRunes, Runes = []\<rparr>"
    by (simp add: createKey_def runes_Nil)
  moreover have "scanLines [''a, b''] [] = [[''a'', '' b'']]"
    by (simp add: scanLines_append Split.simps TrimSpace_ASCII isASCII_def byte_def IsSpace_def
        skipped_def HasPrefix_def)
  moreover have keys: "map createKey [''a'', '' b'']
       = [\<lparr>Type = KeyRunes, Runes = [0x61]\<rparr>, \<lparr>Type = KeyRunes, Runes = [0x20, 0x62]\<rparr>]"
    by (simp add: createKey_literal isASCII_def byte_def)
  moreover have "createKey '' b'' \<noteq> createKey ''b''"
    by (simp add: createKey_literal isASCII_def byte_def)
  moreover have "scanLines [''a,,b,''] [] = [[''a'', [], ''b'', []]]"
    by (simp add: scanLines_append Split.simps TrimSpace_ASCII isASCII_def byte_def IsSpace_def
        skipped_def HasPrefix_def)
  ultimately show ?thesis
    by blast
qed

theorem script_tokens_verbatim_witness:
  "\<not> skipped (TrimSpace '' x , y,, '')
   \<and> CHR '','' \<notin> set ''x ''
   \<and> scanLines ['' x , y,, ''] [] = [[''x '', '' y'', [], []]]
   \<and> joinWith CHR '','' [''x '', '' y'', [], []] = TrimSpace '' x , y,, ''
   \<and> Split (''x '' @ CHR '','' # '' y,,'') CHR '','' = ''x '' # Split '' y,,'' CHR '',''"
proof -
  have trim: "TrimSpace '' x , y,, '' = ''x , y,,''"
    by (simp add: TrimSpace_ASCII isASCII_def byte_def IsSpace_def)
  have split: "Split ''x , y,,'' CHR '','' = [''x '', '' y'', [], []]"
    by (simp add: Split.simps)
  have a: "\<not> skipped (TrimSpace '' x , y,, '')"
    by (simp add: trim skipped_def HasPrefix_def)
  have b: "CHR '','' \<notin> set ''x ''"
    by simp
  from script_tokens_verbatim [of "'' x , y,, ''" "''x ''" "'' y,,''"] a b
  have f1: "scanLines ['' x , y,, ''] [] = [Split (TrimSpace '' x , y,, '') CHR '','']"
    and f2: "joinWith CHR '','' (Split (TrimSpace '' x , y,, '') CHR '','') = TrimSpace '' x , y,, ''"
    and f3: "Split (''x '' @ CHR '','' # '' y,,'') CHR '','' = ''x '' # Split '' y,,'' CHR '',''"
    by blast+
  have "scanLines ['' x , y,, ''] [] = [[''x '', '' y'', [], []]]"
    unfolding f1 trim split ..
  moreover have "joinWith CHR '','' [''x '', '' y'', [], []] = TrimSpace '' x , y,, ''"
    using f2 unfolding trim split .
  ultimately show ?thesis
    using a b f3 by blast
qed

section \<open>Properties of the snapshot store\<close>

lemma exampleSnapshot_fields:
  "Name (exampleSnapshot vfy) = ''x_wins''"
  "filep (exampleSnapshot vfy) = ''testdata/snapshots/x_wins''"
  "verify (exampleSnapshot vfy) = vfy"
  "equal' (exampleSnapshot vfy) = recordCalls"
  by (simp_all add: exampleSnapshot_def NewSnapshot_def deriveSnapshotFilep_def plainFS_def
      NewSnapshotSuite_def)

lemma testSnapshot_fields:
  "Name testSnapshot = ''x_wins''"
  "filep testSnapshot = ''testdata/snapshots/x_wins''"
  "verify testSnapshot"
  "equal' testSnapshot = requireEqual"
  by (simp_all add: testSnapshot_def NewSnapshot_def deriveSnapshotFilep_def plainFS_def
      NewSnapshotSuite_def)

text \<open>
  Claim C5, as the code has it. A snapshot in verify mode whose stored content is not
  empty: \<^verbatim>\<open>Run\<close> calls the assertion function once, with the stored content, the
  rendered view and the name, and leaves the files as they were (no call of
  \<^verbatim>\<open>os.WriteFile\<close> either), whatever the two strings are. When the assertion function
  returns, \<^verbatim>\<open>Run\<close> returns no error, whatever the assertion recorded; when the
  assertion function does not return, \<^verbatim>\<open>Run\<close> does not return either. It never
  returns an error.
\<close>

theorem Run_verify_steady:
  assumes "verify v" and "read v fs = Inr stored" and "stored \<noteq> []"
  shows "Run v view (fs, t)
           = (case equal' v stored view (Name v) t of
                (None, t') \<Rightarrow> (Returns None, fs, t')
              | (Some p, t') \<Rightarrow> (Panics p, fs, t'))
         \<and> fst (snd (Run v view (fs, t))) = fs
         \<and> snd (snd (Run v view (fs, t))) = snd (equal' v stored view (Name v) t)
         \<and> fst (Run v view (fs, t)) \<noteq> Returns (Some err)"
  using assms by (simp add: Run_def split: prod.splits option.splits)

theorem Run_verify_steady_witness:
  "verify (exampleSnapshot True)
   \<and> read (exampleSnapshot True) (plainFS [''testdata/snapshots/x_wins'' \<mapsto> ''old'']) = Inr ''old''
   \<and> ''old'' \<noteq> []
   \<and> Run (exampleSnapshot True) ''new'' (plainFS [''testdata/snapshots/x_wins'' \<mapsto> ''old''], [])
     = (Returns None, plainFS [''testdata/snapshots/x_wins'' \<mapsto> ''old''],
        [(''old'', ''new'', ''x_wins'')])"
proof -
  have a: "verify (exampleSnapshot True)"
    by (simp add: exampleSnapshot_fields)
  have b: "read (exampleSnapshot True) (plainFS [''testdata/snapshots/x_wins'' \<mapsto> ''old'']) = Inr ''old''"
    by (simp add: read_def ReadFile_def exampleSnapshot_fields plainFS_def)
  have c: "''old'' \<noteq> []"
    by simp
  show ?thesis
    using Run_verify_steady [OF a b c, of "''new''" "[]"] a b
    by (simp add: exampleSnapshot_fields recordCalls_def)
qed

text \<open>
  Claim C5 as it is stated fails for an assertion function that does not return on a
  mismatch. With \<^verbatim>\<open>require.Equal\<close>, as in the package's test, the stored content
  \<^verbatim>\<open>"old"\<close> and the view \<^verbatim>\<open>"new"\<close>, the failure is recorded and the file is left alone,
  but \<^verbatim>\<open>Run\<close> does not return success: it does not return.
\<close>

theorem Run_verify_no_return_counterexample:
  "verify testSnapshot
   \<and> read testSnapshot (plainFS [''testdata/snapshots/x_wins'' \<mapsto> ''old'']) = Inr ''old''
   \<and> Run testSnapshot ''new'' (plainFS [''testdata/snapshots/x_wins'' \<mapsto> ''old''], [])
     = (Panics Goexit, plainFS [''testdata/snapshots/x_wins'' \<mapsto> ''old''],
        [(''old'', ''new'', ''x_wins'')])
   \<and> fst (Run testSnapshot ''new'' (plainFS [''testdata/snapshots/x_wins'' \<mapsto> ''old''], []))
     \<noteq> Returns None"
  by (simp add: Run_def read_def ReadFile_def testSnapshot_fields requireEqual_def plainFS_def)

text \<open>
  Claim C6. A snapshot that is not in verify mode: when \<^verbatim>\<open>Run\<close> returns no error, the
  stored content (a missing file reads as the empty string, not as an error) is the
  rendered view, and the assertion function was not called; when the stored content was
  the rendered view already, nothing was written, and otherwise \<^verbatim>\<open>os.WriteFile\<close> was
  called once, with the view.
\<close>

theorem Run_bootstrap:
  assumes "\<not> verify v" and "Run v view (fs, t) = (Returns None, fs', t')"
  shows "read v fs' = Inr view \<and> t' = t
         \<and> (read v fs = Inr view \<longrightarrow> fs' = fs)
         \<and> (read v fs \<noteq> Inr view \<longrightarrow> writeCalls fs' = writeCalls fs @ [(filep v, view)])
         \<and> (files fs (filep v) = None \<and> \<not> readFails fs (filep v) \<longrightarrow> read v fs = Inr [])"
  using assms
  by (auto simp: Run_def read_def write'_def WriteFile_def ReadFile_def IsNotExist_def Let_def
      split: sum.splits option.splits if_splits)

theorem Run_bootstrap_witness:
  "\<not> verify (exampleSnapshot False)
   \<and> Run (exampleSnapshot False) ''board'' (plainFS Map.empty, [])
      = (Returns None, (plainFS [''testdata/snapshots/x_wins'' \<mapsto> ''board''])
                 \<lparr>writeCalls := [(''testdata/snapshots/x_wins'', ''board'')]\<rparr>, [])
   \<and> read (exampleSnapshot False) (plainFS Map.empty) = Inr []
   \<and> read (exampleSnapshot False)
        ((plainFS [''testdata/snapshots/x_wins'' \<mapsto> ''board''])
           \<lparr>writeCalls := [(''testdata/snapshots/x_wins'', ''board'')]\<rparr>) = Inr ''board''"
proof -
  have a: "\<not> verify (exampleSnapshot False)"
    by (simp add: exampleSnapshot_fields)
  have b: "Run (exampleSnapshot False) ''board'' (plainFS Map.empty, [])
      = (Returns None, (plainFS [''testdata/snapshots/x_wins'' \<mapsto> ''board''])
                 \<lparr>writeCalls := [(''testdata/snapshots/x_wins'', ''board'')]\<rparr>, [])"
    by (simp add: Run_def read_def write'_def WriteFile_def ReadFile_def IsNotExist_def
        exampleSnapshot_fields plainFS_def)
  have c: "read (exampleSnapshot False) (plainFS Map.empty) = Inr []"
    by (simp add: read_def ReadFile_def IsNotExist_def plainFS_def)
  from Run_bootstrap [OF a b]
  have "read (exampleSnapshot False)
        ((plainFS [''testdata/snapshots/x_wins'' \<mapsto> ''board''])
           \<lparr>writeCalls := [(''testdata/snapshots/x_wins'', ''board'')]\<rparr>) = Inr ''board''"
    by blast
  with a b c show ?thesis
    by blast
qed

text \<open>
  Claim C4, as the code has it. A call of \<^verbatim>\<open>Run\<close> that writes (a call of
  \<^verbatim>\<open>os.WriteFile\<close>, or a change of any file) has read the stored content, found it
  different from the rendered view, and either the snapshot is not in verify mode or
  the stored content is empty (a missing file reads as empty); it writes the view to
  its own path and changes no other file. The files before the call are arbitrary, so
  this holds for every call of every sequence of calls: content that is not empty is
  replaced only by a run that is not in verify mode and renders something else.
\<close>

theorem Run_writes_only:
  assumes "Run v view (fs, t) = (res, fs', t')"
    and "writeCalls fs' \<noteq> writeCalls fs \<or> files fs' \<noteq> files fs"
  shows "(\<exists>stored. read v fs = Inr stored \<and> view \<noteq> stored \<and> (stored \<noteq> [] \<longrightarrow> \<not> verify v))
         \<and> writeCalls fs' = writeCalls fs @ [(filep v, view)]
         \<and> (\<forall>q. q \<noteq> filep v \<longrightarrow> files fs' q = files fs q)"
proof (cases "read v fs")
  case (Inl e)
  with assms show ?thesis by (simp add: Run_def)
next
  case (Inr stored)
  show ?thesis
  proof (cases "verify v \<and> stored \<noteq> []")
    case True
    with Inr assms show ?thesis by (auto simp: Run_def split: prod.splits option.splits)
  next
    case False
    with Inr assms show ?thesis
      by (auto simp: Run_def write'_def WriteFile_def Let_def split: if_splits option.splits)
  qed
qed

theorem Run_writes_only_witness:
  "Run (exampleSnapshot False) ''new'' (plainFS [''testdata/snapshots/x_wins'' \<mapsto> ''old''], [])
     = (Returns None, (plainFS [''testdata/snapshots/x_wins'' \<mapsto> ''new''])
                \<lparr>writeCalls := [(''testdata/snapshots/x_wins'', ''new'')]\<rparr>, [])
   \<and> files ((plainFS [''testdata/snapshots/x_wins'' \<mapsto> ''new''])
                \<lparr>writeCalls := [(''testdata/snapshots/x_wins'', ''new'')]\<rparr>) ''testdata/snapshots/x_wins''
       \<noteq> files (plainFS [''testdata/snapshots/x_wins'' \<mapsto> ''old'']) ''testdata/snapshots/x_wins''
   \<and> read (exampleSnapshot False) (plainFS [''testdata/snapshots/x_wins'' \<mapsto> ''old'']) = Inr ''old''
   \<and> \<not> verify (exampleSnapshot False)"
proof -
  let ?fs = "plainFS [''testdata/snapshots/x_wins'' \<mapsto> ''old'']"
  let ?fs' = "(plainFS [''testdata/snapshots/x_wins'' \<mapsto> ''new''])
                \<lparr>writeCalls := [(''testdata/snapshots/x_wins'', ''new'')]\<rparr>"
  have run: "Run (exampleSnapshot False) ''new'' (?fs, []) = (Returns None, ?fs', [])"
    by (simp add: Run_def read_def write'_def WriteFile_def ReadFile_def IsNotExist_def
        exampleSnapshot_fields plainFS_def)
  have diff: "files ?fs' ''testdata/snapshots/x_wins'' \<noteq> files ?fs ''testdata/snapshots/x_wins''"
    by (simp add: plainFS_def)
  then have changed: "writeCalls ?fs' \<noteq> writeCalls ?fs \<or> files ?fs' \<noteq> files ?fs"
    by auto
  have rd: "read (exampleSnapshot False) ?fs = Inr ''old''"
    by (simp add: read_def ReadFile_def exampleSnapshot_fields plainFS_def)
  from Run_writes_only [OF run changed] rd have "\<not> verify (exampleSnapshot False)"
    by auto
  with run diff rd show ?thesis
    by blast
qed

text \<open>
  Claim C4 as it is stated fails when the file that was written is empty: after the
  runs that write \<^verbatim>\<open>"a"\<close> and then the empty view, a run in verify mode writes its
  view \<^verbatim>\<open>"b"\<close> over the file.
\<close>

theorem Run_overwrites_under_verify_counterexample:
  "files (fst (RunAll [(exampleSnapshot False, ''a''), (exampleSnapshot False, [])]
                 (plainFS Map.empty, []))) ''testdata/snapshots/x_wins'' = Some []
   \<and> verify (exampleSnapshot True)
   \<and> filep (exampleSnapshot True) = filep (exampleSnapshot False)
   \<and> files (fst (RunAll [(exampleSnapshot False, ''a''), (exampleSnapshot False, []),
                          (exampleSnapshot True, ''b'')]
                 (plainFS Map.empty, []))) ''testdata/snapshots/x_wins'' = Some ''b''"
  by (simp add: Run_def read_def write'_def WriteFile_def ReadFile_def IsNotExist_def
      exampleSnapshot_fields plainFS_def)

text \<open>
  Claim C8. When the script file \<^verbatim>\<open>rootDir/runID.txt\<close> cannot be read, whatever the
  error, \<^verbatim>\<open>readMessageGroups\<close> panics with that error; it has no error result to
  return. \<^verbatim>\<open>RunBubbleTeaSnapshots\<close> then panics before it calls the component or
  touches a file.
\<close>

theorem readMessageGroups_panics:
  assumes "ReadFile fs (pathJoin fs (rootDir suite) (runID @ ''.txt'')) = Inl err"
  shows "readMessageGroups fs (rootDir suite) runID = Panics (PanicError err)
         \<and> RunBubbleTeaSnapshots suite c m vfy runID eq (fs, t) = (Some (PanicError err), m, fs, t)"
  using assms by (simp add: readMessageGroups_def RunBubbleTeaSnapshots_def)

theorem readMessageGroups_panics_witness:
  "ReadFile (plainFS Map.empty)
     (pathJoin (plainFS Map.empty) (rootDir (NewSnapshotSuite ''testdata'')) (''run1'' @ ''.txt''))
     = Inl ErrNotExist
   \<and> readMessageGroups (plainFS Map.empty) (rootDir (NewSnapshotSuite ''testdata'')) ''run1''
     = Panics (PanicError ErrNotExist)
   \<and> RunBubbleTeaSnapshots (NewSnapshotSuite ''testdata'') (recorder None) [] True ''run1''
        recordCalls (plainFS Map.empty, [])
     = (Some (PanicError ErrNotExist), [], plainFS Map.empty, [])"
proof -
  have "ReadFile (plainFS Map.empty)
     (pathJoin (plainFS Map.empty) (rootDir (NewSnapshotSuite ''testdata'')) (''run1'' @ ''.txt''))
     = Inl ErrNotExist"
    by (simp add: ReadFile_def plainFS_def)
  from this readMessageGroups_panics [OF this, where c = "recorder None" and m = "[]"
      and vfy = True and eq = recordCalls and t = "[]"]
  show ?thesis
    by simp
qed

section \<open>Properties of the snapshot names\<close>

lemma decimal_small: "n < 10 \<Longrightarrow> decimal n = [''0123456789'' ! n]"
  by (subst decimal.simps) simp

lemma decimal_big: "10 \<le> n \<Longrightarrow> decimal n = decimal (n div 10) @ [''0123456789'' ! (n mod 10)]"
  by (subst decimal.simps) simp

lemma digit_safe:
  assumes "k < 10"
  shows "safeRune (byte (''0123456789'' ! k))"
proof -
  have "list_all (\<lambda>c. safeRune (byte c)) ''0123456789''"
    by (simp add: safeRune_def byte_def)
  then show ?thesis
    using assms by (simp only: list_all_length) simp
qed

lemma decimal_safe: "list_all (\<lambda>c. safeRune (byte c)) (decimal n)"
proof (induction n rule: decimal.induct)
  case (1 n)
  show ?case
  proof (cases "n < 10")
    case True
    then show ?thesis by (simp add: decimal_small digit_safe)
  next
    case False
    then have "list_all (\<lambda>c. safeRune (byte c)) (decimal (n div 10))"
      by (rule "1.IH")
    moreover have "n mod 10 < 10" by simp
    ultimately show ?thesis
      using False by (simp add: decimal_big digit_safe)
  qed
qed

lemma Sprintf_03d_nat: "Sprintf_03d (int i) = zeroPad 3 (decimal i)"
  by (simp add: Sprintf_03d_def)

lemma Sprintf_03d_three:
  assumes "i < 1000"
  shows "Sprintf_03d (int i)
         = [''0123456789'' ! (i div 100), ''0123456789'' ! (i div 10 mod 10), ''0123456789'' ! (i mod 10)]"
proof -
  consider "i < 10" | "10 \<le> i" "i < 100" | "100 \<le> i"
    by linarith
  then show ?thesis
  proof cases
    case 1
    then show ?thesis
      by (simp add: Sprintf_03d_nat decimal_small zeroPad_def numeral_2_eq_2)
  next
    case 2
    then have "i div 10 < 10" "i div 100 = 0" by simp_all
    with 2 show ?thesis
      by (simp add: Sprintf_03d_nat decimal_big decimal_small zeroPad_def)
  next
    case 3
    have hundreds: "i div 10 div 10 = i div 100"
      by (simp add: div_mult2_eq [symmetric])
    from 3 assms have "10 \<le> i div 10" "i div 100 < 10" "10 \<le> i" by simp_all
    then show ?thesis
      by (simp add: Sprintf_03d_nat decimal_big decimal_small zeroPad_def hundreds)
  qed
qed

lemma Sprintf_03d_safe: "list_all (\<lambda>c. safeRune (byte c)) (Sprintf_03d (int i))"
proof -
  have "safeRune (byte CHR ''0'')"
    by (simp add: safeRune_def byte_def)
  then show ?thesis
    using decimal_safe [of i] by (auto simp: Sprintf_03d_nat zeroPad_def list_all_iff)
qed

lemma ToSafeFilename_safe_id:
  assumes "list_all (\<lambda>c. safeRune (byte c)) s"
  shows "ToSafeFilename s = s"
proof -
  have "isASCII s"
    using assms safeRune_less by (fastforce simp: isASCII_def list_all_iff)
  then have "ToSafeFilename s = map (\<lambda>c. if safeRune (byte c) then c else CHR ''_'') s"
    by (rule ToSafeFilename_ASCII)
  also have "\<dots> = s"
    using assms by (simp add: list_all_iff map_idI)
  finally show ?thesis .
qed

text \<open>
  Claim C1, as the code has it. The name handed to the snapshot store for the run
  \<open>runID\<close> and the index \<open>i\<close> is \<open>runID\<close>, an underscore and \<open>i\<close> in decimal, padded
  with zeros to three digits, as \<^verbatim>\<open>Sprintf\<close> wrote it: the engine does not call the
  sanitizer. The path of the file is \<^verbatim>\<open>filepath.Join\<close> of the root of the suite and
  this name. The name is what the sanitizer would give when \<open>runID\<close> holds only
  characters of the safe set.
\<close>

theorem snapshot_name_verbatim:
  "Name (snapshotOf fs suite vfy runID eq i) = runID @ ''_'' @ Sprintf_03d (int i)
   \<and> filep (snapshotOf fs suite vfy runID eq i)
       = pathJoin fs (rootDir suite) (runID @ ''_'' @ Sprintf_03d (int i))
   \<and> (i < 1000 \<longrightarrow> Sprintf_03d (int i)
         = [''0123456789'' ! (i div 100), ''0123456789'' ! (i div 10 mod 10), ''0123456789'' ! (i mod 10)])
   \<and> (list_all (\<lambda>c. safeRune (byte c)) runID \<longrightarrow>
        ToSafeFilename (Name (snapshotOf fs suite vfy runID eq i))
        = Name (snapshotOf fs suite vfy runID eq i))
   \<and> runSnapshot suite c vfy runID eq i m w
       = (case Run (snapshotOf (fst w) suite vfy runID eq i) (View c m) w of
            (Returns (Some err), w') \<Rightarrow> (Some (PanicError err), w')
          | (Returns None, w') \<Rightarrow> (None, w')
          | (Panics p, w') \<Rightarrow> (Some p, w'))"
proof -
  have name: "Name (snapshotOf fs suite vfy runID eq i) = runID @ ''_'' @ Sprintf_03d (int i)"
    by (simp add: snapshotOf_def NewSnapshot_def Sprintf_s_03d_def)
  have "safeRune (byte CHR ''_'')"
    by (simp add: safeRune_def byte_def)
  then have "list_all (\<lambda>c. safeRune (byte c)) (runID @ ''_'' @ Sprintf_03d (int i))"
    if "list_all (\<lambda>c. safeRune (byte c)) runID"
    using that Sprintf_03d_safe [of i] by simp
  then have "ToSafeFilename (Name (snapshotOf fs suite vfy runID eq i))
        = Name (snapshotOf fs suite vfy runID eq i)"
    if "list_all (\<lambda>c. safeRune (byte c)) runID"
    using that unfolding name by (simp add: ToSafeFilename_safe_id)
  moreover have "filep (snapshotOf fs suite vfy runID eq i)
       = pathJoin fs (rootDir suite) (runID @ ''_'' @ Sprintf_03d (int i))"
    by (simp add: snapshotOf_def NewSnapshot_def Sprintf_s_03d_def deriveSnapshotFilep_def)
  moreover have "runSnapshot suite c vfy runID eq i m w
       = (case Run (snapshotOf (fst w) suite vfy runID eq i) (View c m) w of
            (Returns (Some err), w') \<Rightarrow> (Some (PanicError err), w')
          | (Returns None, w') \<Rightarrow> (None, w')
          | (Panics p, w') \<Rightarrow> (Some p, w'))"
    by (simp add: runSnapshot_def)
  ultimately show ?thesis
    using name Sprintf_03d_three [of i] by blast
qed

theorem snapshot_name_verbatim_witness:
  "(7::nat) < 1000 \<and> list_all (\<lambda>c. safeRune (byte c)) ''run1''
   \<and> Name (snapshotOf (plainFS Map.empty) (NewSnapshotSuite ''testdata'') True ''run1'' recordCalls 7)
      = ''run1_007''
   \<and> filep (snapshotOf (plainFS Map.empty) (NewSnapshotSuite ''testdata'') True ''run1'' recordCalls 7)
      = ''testdata/run1_007''
   \<and> ToSafeFilename ''run1_007'' = ''run1_007''"
proof -
  have a: "(7::nat) < 1000" by simp
  have b: "list_all (\<lambda>c. safeRune (byte c)) ''run1''"
    by (simp add: safeRune_def byte_def)
  from snapshot_name_verbatim [where fs = "plainFS Map.empty"
      and suite = "NewSnapshotSuite ''testdata''" and vfy = True and runID = "''run1''"
      and eq = recordCalls and i = 7 and c = "recorder None" and m = "[]"
      and w = "(plainFS Map.empty, [])"] a b
  have n: "Name (snapshotOf (plainFS Map.empty) (NewSnapshotSuite ''testdata'') True ''run1'' recordCalls 7)
      = ''run1'' @ ''_'' @ Sprintf_03d (int 7)"
    and f: "filep (snapshotOf (plainFS Map.empty) (NewSnapshotSuite ''testdata'') True ''run1'' recordCalls 7)
      = pathJoin (plainFS Map.empty) (rootDir (NewSnapshotSuite ''testdata''))
          (''run1'' @ ''_'' @ Sprintf_03d (int 7))"
    and d: "Sprintf_03d (int 7)
         = [''0123456789'' ! (7 div 100), ''0123456789'' ! (7 div 10 mod 10), ''0123456789'' ! (7 mod 10)]"
    and s: "ToSafeFilename (Name (snapshotOf (plainFS Map.empty) (NewSnapshotSuite ''testdata'') True
              ''run1'' recordCalls 7))
        = Name (snapshotOf (plainFS Map.empty) (NewSnapshotSuite ''testdata'') True ''run1'' recordCalls 7)"
    by blast+
  have d': "Sprintf_03d (int 7) = ''007''"
    unfolding d by simp
  show ?thesis
    using a b s unfolding n f d' by (simp add: plainFS_def NewSnapshotSuite_def)
qed

text \<open>
  Claim C1 as it is stated fails for a run identifier with a character outside the safe
  set: for \<^verbatim>\<open>"a b"\<close> the store gets the name \<^verbatim>\<open>"a b_000"\<close>, not \<^verbatim>\<open>"a_b_000"\<close>.
\<close>

theorem snapshot_name_sanitized_counterexample:
  "Name (snapshotOf (plainFS Map.empty) (NewSnapshotSuite ''testdata'') True ''a b'' recordCalls 0)
     = ''a b_000''
   \<and> ToSafeFilename (''a b'' @ ''_'' @ Sprintf_03d 0) = ''a_b_000''
   \<and> Name (snapshotOf (plainFS Map.empty) (NewSnapshotSuite ''testdata'') True ''a b'' recordCalls 0)
     \<noteq> ToSafeFilename (''a b'' @ ''_'' @ Sprintf_03d 0)
   \<and> filep (snapshotOf (plainFS Map.empty) (NewSnapshotSuite ''testdata'') True ''a b'' recordCalls 0)
     = ''testdata/a b_000''"
proof -
  have d: "Sprintf_03d 0 = ''000''"
    using Sprintf_03d_three [of 0] by simp
  have "ToSafeFilename ''a b_000'' = ''a_b_000''"
    by (simp add: ToSafeFilename_ASCII isASCII_def byte_def safeRune_def)
  then show ?thesis
    by (simp add: snapshotOf_def NewSnapshot_def Sprintf_s_03d_def deriveSnapshotFilep_def d
        plainFS_def NewSnapshotSuite_def)
qed

section \<open>Properties of the replay engine\<close>

lemma updateLoop_None: "updateLoop c counter m None = (None, m)"
  by (simp add: updateLoop.simps)

lemma updateLoop_Some:
  "updateLoop c counter m (Some msg) =
     (if counter \<le> 1 then (Some (PanicString ''counter == 0, eternal loop''), fst (Update c m msg))
      else updateLoop c (counter - 1) (fst (Update c m msg)) (snd (Update c m msg)))"
  by (subst updateLoop.simps) (simp split: prod.splits)

lemma settleStep_None: "(settleStep c ^^ k) (m, None) = (m, None)"
  by (induction k) (simp_all add: settleStep_def)

lemma settleStep_Some:
  "(settleStep c ^^ Suc k) (m, Some msg) = (settleStep c ^^ k) (Update c m msg)"
  by (simp add: funpow_swap1 settleStep_def)

lemma updateLoop_settles:
  "snd ((settleStep c ^^ k) (m, cmd)) = None \<Longrightarrow> int k < counter \<Longrightarrow>
     updateLoop c counter m cmd = (None, fst ((settleStep c ^^ k) (m, cmd)))"
proof (induction k arbitrary: m cmd counter)
  case 0
  then show ?case by (simp add: updateLoop_None)
next
  case (Suc k)
  show ?case
  proof (cases cmd)
    case None
    then show ?thesis
      by (simp add: updateLoop_None settleStep_None del: funpow.simps)
  next
    case (Some msg)
    obtain m' cmd' where u: "Update c m msg = (m', cmd')"
      by (cases "Update c m msg")
    from Suc.prems(1) have "snd ((settleStep c ^^ k) (m', cmd')) = None"
      unfolding Some settleStep_Some u .
    moreover from Suc.prems(2) have "int k < counter - 1"
      by simp
    ultimately have "updateLoop c (counter - 1) m' cmd' = (None, fst ((settleStep c ^^ k) (m', cmd')))"
      by (rule Suc.IH)
    moreover from Suc.prems(2) have "\<not> counter \<le> 1"
      by simp
    ultimately show ?thesis
      unfolding Some settleStep_Some u by (simp add: updateLoop_Some u)
  qed
qed

lemma updateLoop_fuse:
  "(\<And>j. j < Suc k \<Longrightarrow> snd ((settleStep c ^^ j) (m, cmd)) \<noteq> None) \<Longrightarrow>
     updateLoop c (int (Suc k)) m cmd
       = (Some (PanicString ''counter == 0, eternal loop''), fst ((settleStep c ^^ Suc k) (m, cmd)))"
proof (induction k arbitrary: m cmd)
  case 0
  from "0.prems" [of 0] obtain msg where cmd: "cmd = Some msg"
    by auto
  show ?case
    unfolding cmd settleStep_Some by (simp add: updateLoop_Some)
next
  case (Suc k)
  from Suc.prems [of 0] obtain msg where cmd: "cmd = Some msg"
    by auto
  obtain m' cmd' where u: "Update c m msg = (m', cmd')"
    by (cases "Update c m msg")
  have "snd ((settleStep c ^^ j) (m', cmd')) \<noteq> None" if "j < Suc k" for j
    using Suc.prems [of "Suc j"] that unfolding cmd settleStep_Some u by simp
  then have "updateLoop c (int (Suc k)) m' cmd'
       = (Some (PanicString ''counter == 0, eternal loop''), fst ((settleStep c ^^ Suc k) (m', cmd')))"
    by (rule Suc.IH)
  then show ?case
    unfolding cmd settleStep_Some [where k = "Suc k"] u by (simp add: updateLoop_Some u)
qed

lemma countdown_chain:
  "j \<le> n \<Longrightarrow> (settleStep countdown ^^ j) (n, Some NilMsg) = (n - j, Some NilMsg)"
  by (induction j) (simp_all add: settleStep_def countdown_def)

lemma countdown_end: "(settleStep countdown ^^ Suc n) (n, Some NilMsg) = (0, None)"
  by (simp add: countdown_chain) (simp add: settleStep_def countdown_def)

lemma ticker_chain: "(settleStep ticker ^^ j) (n, Some NilMsg) = (n + j, Some NilMsg)"
  by (induction j) (simp_all add: settleStep_def ticker_def)

text \<open>
  Claim C3, as the code has it. \<^verbatim>\<open>runUpdates\<close> makes one update with its message and
  settles the Effect of that update. When the chain of Effects has no Effect left after
  \<open>k\<close> steps, for some \<open>k\<close> below 100 (at most 99 Effects are forced), settling
  returns the component of that point and the fuse does not trigger. When each of the
  first 100 Effects of the chain is there (a chain that never ends, for one), settling
  panics, and the component at the panic has had exactly the 100 updates of the loop:
  the fuse triggers in iteration 100, whether or not the 100th update returned an
  Effect.
\<close>

theorem runUpdates_fuse:
  "(k < 100 \<and> snd ((settleStep c ^^ k) (Update c m msg)) = None \<longrightarrow>
      runUpdates c m msg = (None, fst ((settleStep c ^^ k) (Update c m msg))))
   \<and> ((\<forall>j<100. snd ((settleStep c ^^ j) (Update c m msg)) \<noteq> None) \<longrightarrow>
      runUpdates c m msg
        = (Some (PanicString ''counter == 0, eternal loop''),
           fst ((settleStep c ^^ 100) (Update c m msg))))"
proof -
  obtain m' cmd where u: "Update c m msg = (m', cmd)"
    by (cases "Update c m msg")
  have run: "runUpdates c m msg = updateLoop c 100 m' cmd"
    by (simp add: runUpdates_def u)
  have "runUpdates c m msg = (None, fst ((settleStep c ^^ k) (m', cmd)))"
    if "k < 100" and "snd ((settleStep c ^^ k) (m', cmd)) = None"
    unfolding run using that by (intro updateLoop_settles) simp_all
  moreover have "runUpdates c m msg
        = (Some (PanicString ''counter == 0, eternal loop''), fst ((settleStep c ^^ 100) (m', cmd)))"
    if "\<forall>j<100. snd ((settleStep c ^^ j) (m', cmd)) \<noteq> None"
  proof -
    have "updateLoop c (int (Suc 99)) m' cmd
       = (Some (PanicString ''counter == 0, eternal loop''), fst ((settleStep c ^^ Suc 99) (m', cmd)))"
      using that by (intro updateLoop_fuse) simp
    then show ?thesis
      unfolding run by simp
  qed
  ultimately show ?thesis
    unfolding u by blast
qed

theorem runUpdates_fuse_witness:
  "(99::nat) < 100
   \<and> snd ((settleStep countdown ^^ 99) (Update countdown 99 NilMsg)) = None
   \<and> runUpdates countdown 99 NilMsg = (None, 0)
   \<and> runUpdates ticker 0 NilMsg = (Some (PanicString ''counter == 0, eternal loop''), 101)"
proof -
  have u: "Update countdown 99 NilMsg = (98, Some NilMsg)"
    by (simp add: countdown_def)
  have chain: "(settleStep countdown ^^ 99) (Update countdown 99 NilMsg) = (0, None)"
    unfolding u using countdown_end [of 98] by simp
  have t: "Update ticker 0 NilMsg = (1, Some NilMsg)"
    by (simp add: ticker_def)
  have never: "\<forall>j<100. snd ((settleStep ticker ^^ j) (Update ticker 0 NilMsg)) \<noteq> None"
    unfolding t by (simp add: ticker_chain)
  have a: "(99::nat) < 100"
    by simp
  from runUpdates_fuse [of 99 countdown 99 NilMsg] a chain
  have "runUpdates countdown 99 NilMsg = (None, 0)"
    by simp
  moreover from runUpdates_fuse [of 0 ticker 0 NilMsg] never
  have "runUpdates ticker 0 NilMsg
        = (Some (PanicString ''counter == 0, eternal loop''),
           fst ((settleStep ticker ^^ 100) (Update ticker 0 NilMsg)))"
    by blast
  then have "runUpdates ticker 0 NilMsg = (Some (PanicString ''counter == 0, eternal loop''), 101)"
    unfolding t by (simp add: ticker_chain)
  ultimately show ?thesis
    using a chain by simp
qed

text \<open>
  Claim C3 as it is stated fails for a chain of exactly 100 steps: \<open>countdown\<close> from
  100 still has an Effect after 99 steps and none after 100, and settling panics.
\<close>

theorem runUpdates_hundred_steps_counterexample:
  "snd ((settleStep countdown ^^ 99) (Update countdown 100 NilMsg)) \<noteq> None
   \<and> snd ((settleStep countdown ^^ 100) (Update countdown 100 NilMsg)) = None
   \<and> runUpdates countdown 100 NilMsg = (Some (PanicString ''counter == 0, eternal loop''), 0)"
proof -
  have u: "Update countdown 100 NilMsg = (99, Some NilMsg)"
    by (simp add: countdown_def)
  have before: "(settleStep countdown ^^ j) (99, Some NilMsg) = (99 - j, Some NilMsg)" if "j \<le> 99" for j
    using that by (rule countdown_chain)
  have after: "(settleStep countdown ^^ 100) (99, Some NilMsg) = (0, None)"
    using countdown_end [of 99] by simp
  have "updateLoop countdown (int (Suc 99)) 99 (Some NilMsg)
       = (Some (PanicString ''counter == 0, eternal loop''),
          fst ((settleStep countdown ^^ Suc 99) (99, Some NilMsg)))"
    by (intro updateLoop_fuse) (simp add: before)
  then have "runUpdates countdown 100 NilMsg = (Some (PanicString ''counter == 0, eternal loop''), 0)"
    using after by (simp add: runUpdates_def u)
  then show ?thesis
    unfolding u using before [of 99] after by simp
qed

lemma Sprintf_03d_zero: "Sprintf_03d 0 = ''000''"
  using Sprintf_03d_three [of 0] by simp

lemma recorder_settleInit: "settleInit (recorder cmd) [] = (None, [CmdMsg cmd])"
  by (simp add: settleInit_def runUpdates_def recorder_def updateLoop_None)

lemma emptyScript_groups:
  "readMessageGroups (plainFS [''testdata/run1.txt'' \<mapsto> []]) ''testdata'' ''run1'' = Returns []"
  by (simp add: readMessageGroups_def ReadFile_def plainFS_def Split_no_sep TrimSpace_def
      TrimLeftSpace_Nil TrimRightSpace_Nil)

lemma recorder_runSnapshot:
  "runSnapshot (NewSnapshotSuite ''testdata'') (recorder (None :: unit Cmd)) False ''run1''
       recordCalls 0 [CmdMsg None] (plainFS [''testdata/run1.txt'' \<mapsto> []], [])
     = (None, (plainFS [''testdata/run1.txt'' \<mapsto> [], ''testdata/run1_000'' \<mapsto> ''1''])
                \<lparr>writeCalls := [(''testdata/run1_000'', ''1'')]\<rparr>, [])"
proof -
  have "View (recorder (None :: unit Cmd)) [CmdMsg None] = ''1''"
    by (simp add: recorder_def decimal_small)
  then show ?thesis
    by (simp add: runSnapshot_def snapshotOf_def NewSnapshot_def Sprintf_s_03d_def
        Sprintf_03d_zero deriveSnapshotFilep_def Run_def read_def write'_def WriteFile_def
        ReadFile_def IsNotExist_def plainFS_def NewSnapshotSuite_def)
qed

text \<open>
  Claim C2, as the code has it. After \<^verbatim>\<open>Init\<close> and a dropped \<^verbatim>\<open>View\<close> the engine runs
  \<^verbatim>\<open>runUpdates\<close>, which always makes one update, whether or not \<^verbatim>\<open>Init\<close> returned an
  Effect (the message of that update is the value \<^verbatim>\<open>Init\<close> returned), and settles the
  Effect this update returns: when no Effect is left after \<open>k\<close> steps, \<open>k\<close> below 100,
  the component of that point is the one whose view becomes snapshot 0, before the
  groups of the script are replayed.
\<close>

theorem settleInit_update_first:
  "settleInit c m = runUpdates c m (CmdMsg (Init c m))
   \<and> (k < 100 \<and> snd ((settleStep c ^^ k) (Update c m (CmdMsg (Init c m)))) = None \<longrightarrow>
        settleInit c m = (None, fst ((settleStep c ^^ k) (Update c m (CmdMsg (Init c m))))))
   \<and> (readMessageGroups (fst w) (rootDir suite) runID = Returns gs \<and> settleInit c m = (None, m') \<longrightarrow>
        RunBubbleTeaSnapshots suite c m vfy runID eq w
        = (case runSnapshot suite c vfy runID eq 0 m' w of
             (Some p, w') \<Rightarrow> (Some p, m', w')
           | (None, w') \<Rightarrow> replayGroups suite c vfy runID eq 0 gs m' w'))"
proof -
  obtain m1 cmd where u: "Update c m (CmdMsg (Init c m)) = (m1, cmd)"
    by (cases "Update c m (CmdMsg (Init c m))")
  have s: "settleInit c m = updateLoop c 100 m1 cmd"
    by (simp add: settleInit_def runUpdates_def u)
  have "settleInit c m = (None, fst ((settleStep c ^^ k) (m1, cmd)))"
    if "k < 100" and "snd ((settleStep c ^^ k) (m1, cmd)) = None"
    unfolding s using that by (intro updateLoop_settles) simp_all
  moreover have "settleInit c m = runUpdates c m (CmdMsg (Init c m))"
    by (simp add: settleInit_def)
  moreover have "RunBubbleTeaSnapshots suite c m vfy runID eq w
        = (case runSnapshot suite c vfy runID eq 0 m' w of
             (Some p, w') \<Rightarrow> (Some p, m', w')
           | (None, w') \<Rightarrow> replayGroups suite c vfy runID eq 0 gs m' w')"
    if "readMessageGroups (fst w) (rootDir suite) runID = Returns gs" and "settleInit c m = (None, m')"
    using that by (simp add: RunBubbleTeaSnapshots_def)
  ultimately show ?thesis
    unfolding u [symmetric] by blast
qed

theorem settleInit_update_first_witness:
  "(0::nat) < 100
   \<and> snd ((settleStep (recorder None) ^^ 0) (Update (recorder None) [] (CmdMsg (Init (recorder None) []))))
      = (None :: unit Cmd)
   \<and> settleInit (recorder None) [] = (None, [CmdMsg (None :: unit Cmd)])
   \<and> readMessageGroups (fst (plainFS [''testdata/run1.txt'' \<mapsto> []], ([] :: (string \<times> string \<times> string) list)))
        (rootDir (NewSnapshotSuite ''testdata'')) ''run1'' = Returns []
   \<and> RunBubbleTeaSnapshots (NewSnapshotSuite ''testdata'') (recorder (None :: unit Cmd)) [] False
        ''run1'' recordCalls (plainFS [''testdata/run1.txt'' \<mapsto> []], [])
      = (None, [CmdMsg None],
         (plainFS [''testdata/run1.txt'' \<mapsto> [], ''testdata/run1_000'' \<mapsto> ''1''])
            \<lparr>writeCalls := [(''testdata/run1_000'', ''1'')]\<rparr>, [])"
proof -
  let ?w = "(plainFS [''testdata/run1.txt'' \<mapsto> []], ([] :: (string \<times> string \<times> string) list))"
  let ?c = "recorder (None :: unit Cmd)"
  note inst = settleInit_update_first [where c = ?c and m = "[]" and k = 0 and w = ?w
      and suite = "NewSnapshotSuite ''testdata''" and runID = "''run1''" and gs = "[]"
      and m' = "[CmdMsg None]" and vfy = False and eq = recordCalls]
  have a: "(0::nat) < 100"
    by simp
  have b: "snd ((settleStep ?c ^^ 0) (Update ?c [] (CmdMsg (Init ?c [])))) = None"
    by (simp add: recorder_def)
  have g: "readMessageGroups (fst ?w) (rootDir (NewSnapshotSuite ''testdata'')) ''run1'' = Returns []"
    by (simp add: emptyScript_groups NewSnapshotSuite_def)
  from inst a b have s: "settleInit ?c []
        = (None, fst ((settleStep ?c ^^ 0) (Update ?c [] (CmdMsg (Init ?c [])))))"
    by blast
  then have s': "settleInit ?c [] = (None, [CmdMsg None])"
    by (simp add: recorder_def)
  from inst g s' have "RunBubbleTeaSnapshots (NewSnapshotSuite ''testdata'') ?c [] False ''run1'' recordCalls ?w
        = (case runSnapshot (NewSnapshotSuite ''testdata'') ?c False ''run1'' recordCalls 0 [CmdMsg None] ?w of
             (Some p, w') \<Rightarrow> (Some p, [CmdMsg None], w')
           | (None, w') \<Rightarrow> replayGroups (NewSnapshotSuite ''testdata'') ?c False ''run1'' recordCalls 0 []
                [CmdMsg None] w')"
    by blast
  then have "RunBubbleTeaSnapshots (NewSnapshotSuite ''testdata'') ?c [] False ''run1'' recordCalls ?w
      = (None, [CmdMsg None],
         (plainFS [''testdata/run1.txt'' \<mapsto> [], ''testdata/run1_000'' \<mapsto> ''1''])
            \<lparr>writeCalls := [(''testdata/run1_000'', ''1'')]\<rparr>, [])"
    by (simp add: recorder_runSnapshot)
  with a b s' g show ?thesis
    by blast
qed

text \<open>
  Claim C2 as it is stated fails in both parts. The component \<open>recorder\<close> shows the
  messages it received. When \<^verbatim>\<open>Init\<close> returns an Effect that yields the Event
  \<open>AppMsg ()\<close>, the only update before snapshot 0 received the Effect itself, not its
  Event. When \<^verbatim>\<open>Init\<close> returns no Effect, one update was made all the same, and
  snapshot 0 of a replay with an empty script shows it.
\<close>

theorem settleInit_forces_init_counterexample:
  "Init (recorder (Some (AppMsg ()))) [] = Some (AppMsg ())
   \<and> settleInit (recorder (Some (AppMsg ()))) [] = (None, [CmdMsg (Some (AppMsg ()))])
   \<and> Init (recorder (None :: unit Cmd)) [] = None
   \<and> settleInit (recorder (None :: unit Cmd)) [] = (None, [CmdMsg None])
   \<and> files (fst (snd (snd (RunBubbleTeaSnapshots (NewSnapshotSuite ''testdata'')
         (recorder (None :: unit Cmd)) [] False ''run1'' recordCalls
         (plainFS [''testdata/run1.txt'' \<mapsto> []], []))))) ''testdata/run1_000'' = Some ''1''"
proof -
  have "RunBubbleTeaSnapshots (NewSnapshotSuite ''testdata'')
         (recorder (None :: unit Cmd)) [] False ''run1'' recordCalls
         (plainFS [''testdata/run1.txt'' \<mapsto> []], [])
        = (None, [CmdMsg None],
           (plainFS [''testdata/run1.txt'' \<mapsto> [], ''testdata/run1_000'' \<mapsto> ''1''])
                      \<lparr>writeCalls := [(''testdata/run1_000'', ''1'')]\<rparr>, [])"
    by (simp add: RunBubbleTeaSnapshots_def NewSnapshotSuite_def emptyScript_groups
        recorder_settleInit recorder_runSnapshot [unfolded NewSnapshotSuite_def])
  then have "files (fst (snd (snd (RunBubbleTeaSnapshots (NewSnapshotSuite ''testdata'')
         (recorder (None :: unit Cmd)) [] False ''run1'' recordCalls
         (plainFS [''testdata/run1.txt'' \<mapsto> []], []))))) ''testdata/run1_000'' = Some ''1''"
    by (simp add: plainFS_def)
  moreover have "Init (recorder (Some (AppMsg ()))) [] = Some (AppMsg ())"
    and "Init (recorder (None :: unit Cmd)) [] = None"
    by (simp_all add: recorder_def)
  ultimately show ?thesis
    using recorder_settleInit [of "Some (AppMsg ())"] recorder_settleInit [of "None :: unit Cmd"]
    by blast
qed

end
